theory Spec2Isabelle
  imports Main
begin

section \<open>Python strings\<close>

text \<open>
  A Python \<^verbatim>\<open>str\<close> is a sequence of Unicode code points. It is modelled as a list of
  natural numbers, one per code point, so that the non-ASCII characters of the substitution
  table and Python's Unicode notion of whitespace can be written down as they are.
  \<open>ustr\<close> turns an ASCII literal into such a list.
\<close>

type_synonym ustring = "nat list"

definition ustr :: "string \<Rightarrow> ustring" where
  "ustr s = map of_char s"

text \<open>
  \<^verbatim>\<open>str.isspace\<close> on one character; the same set is used by \<^verbatim>\<open>str.strip\<close>,
  \<^verbatim>\<open>str.split()\<close> and the \<^verbatim>\<open>\s\<close> class of \<^verbatim>\<open>re\<close> on \<^verbatim>\<open>str\<close> patterns:
  U+0009..U+000D, U+001C..U+0020, U+0085, U+00A0, U+1680, U+2000..U+200A, U+2028, U+2029,
  U+202F, U+205F, U+3000.
\<close>

definition py_isspace :: "nat \<Rightarrow> bool" where
  "py_isspace c \<longleftrightarrow>
     (9 \<le> c \<and> c \<le> 13) \<or> (28 \<le> c \<and> c \<le> 32) \<or> c = 133 \<or> c = 160 \<or> c = 5760 \<or>
     (8192 \<le> c \<and> c \<le> 8202) \<or> c = 8232 \<or> c = 8233 \<or> c = 8239 \<or> c = 8287 \<or> c = 12288"

definition lstrip :: "ustring \<Rightarrow> ustring" where
  "lstrip s = dropWhile py_isspace s"

definition rstrip :: "ustring \<Rightarrow> ustring" where
  "rstrip s = rev (dropWhile py_isspace (rev s))"

definition strip :: "ustring \<Rightarrow> ustring" where
  "strip s = rstrip (lstrip s)"

text \<open>\<^verbatim>\<open>sep.join(xs)\<close>.\<close>

fun join :: "ustring \<Rightarrow> ustring list \<Rightarrow> ustring" where
  "join sep [] = []"
| "join sep [x] = x"
| "join sep (x # y # ys) = x @ sep @ join sep (y # ys)"

text \<open>
  \<^verbatim>\<open>s.split()\<close> with no separator: the maximal runs of non-whitespace characters, in order.
  \<open>cur\<close> is the run being read.
\<close>

fun split_ws_acc :: "ustring \<Rightarrow> ustring \<Rightarrow> ustring list" where
  "split_ws_acc cur [] = (if cur = [] then [] else [cur])"
| "split_ws_acc cur (c # cs) =
     (if py_isspace c then (if cur = [] then split_ws_acc [] cs else cur # split_ws_acc [] cs)
      else split_ws_acc (cur @ [c]) cs)"

definition py_split :: "ustring \<Rightarrow> ustring list" where
  "py_split s = split_ws_acc [] s"

text \<open>\<^verbatim>\<open>s.startswith(p)\<close>.\<close>

definition startswith :: "ustring \<Rightarrow> ustring \<Rightarrow> bool" where
  "startswith s p \<longleftrightarrow> take (length p) s = p"

text \<open>
  \<^verbatim>\<open>s.find(sub)\<close>: the least index at which \<open>sub\<close> occurs, \<open>None\<close> for Python's \<open>-1\<close>;
  \<^verbatim>\<open>sub in s\<close> is \<open>contains s sub\<close>.
\<close>

fun find_from :: "ustring \<Rightarrow> nat \<Rightarrow> ustring \<Rightarrow> nat option" where
  "find_from sub p [] = (if sub = [] then Some p else None)"
| "find_from sub p (c # cs) =
     (if startswith (c # cs) sub then Some p else find_from sub (Suc p) cs)"

definition find_sub :: "ustring \<Rightarrow> ustring \<Rightarrow> nat option" where
  "find_sub sub s = find_from sub 0 s"

definition contains :: "ustring \<Rightarrow> ustring \<Rightarrow> bool" where
  "contains s sub \<longleftrightarrow> find_sub sub s \<noteq> None"

text \<open>
  \<^verbatim>\<open>s.replace(old, new)\<close> for a non-empty \<open>old\<close> (every call of the program passes a
  non-empty literal): the occurrences are replaced from left to right, without overlap.
\<close>

fun replace :: "ustring \<Rightarrow> ustring \<Rightarrow> ustring \<Rightarrow> ustring" where
  "replace old new [] = []"
| "replace old new (c # cs) =
     (if old \<noteq> [] \<and> startswith (c # cs) old
      then new @ replace old new (drop (length old - 1) cs)
      else c # replace old new cs)"

text \<open>
  \<^verbatim>\<open>s.split(sep)\<close> for a non-empty \<open>sep\<close> (every call of the program passes a non-empty
  literal): the pieces between the occurrences of \<open>sep\<close>, found from left to right; the
  result always has at least one piece. \<open>cur\<close> is the piece being read.
\<close>

fun split_sep_acc :: "ustring \<Rightarrow> ustring \<Rightarrow> ustring \<Rightarrow> ustring list" where
  "split_sep_acc sep cur [] = [cur]"
| "split_sep_acc sep cur (c # cs) =
     (if sep \<noteq> [] \<and> startswith (c # cs) sep
      then cur # split_sep_acc sep [] (drop (length sep - 1) cs)
      else split_sep_acc sep (cur @ [c]) cs)"

definition split_sep :: "ustring \<Rightarrow> ustring \<Rightarrow> ustring list" where
  "split_sep sep s = split_sep_acc sep [] s"

text \<open>
  \<^verbatim>\<open>s.splitlines()\<close>: lines end at \<^verbatim>\<open>\n\<close>, \<^verbatim>\<open>\r\<close>, \<^verbatim>\<open>\r\n\<close>, \<^verbatim>\<open>\v\<close>, \<^verbatim>\<open>\f\<close>,
  U+001C, U+001D, U+001E, U+0085, U+2028 and U+2029; the line ends are dropped, and there is
  no empty last line after a final line end.
\<close>

definition is_linebreak :: "nat \<Rightarrow> bool" where
  "is_linebreak c \<longleftrightarrow>
     (10 \<le> c \<and> c \<le> 13) \<or> (28 \<le> c \<and> c \<le> 30) \<or> c = 133 \<or> c = 8232 \<or> c = 8233"

fun splitlines_acc :: "ustring \<Rightarrow> ustring \<Rightarrow> ustring list" where
  "splitlines_acc cur [] = (if cur = [] then [] else [cur])"
| "splitlines_acc cur (c # cs) =
     (if c = 13 \<and> cs \<noteq> [] \<and> hd cs = 10 then cur # splitlines_acc [] (tl cs)
      else if is_linebreak c then cur # splitlines_acc [] cs
      else splitlines_acc (cur @ [c]) cs)"

definition splitlines :: "ustring \<Rightarrow> ustring list" where
  "splitlines s = splitlines_acc [] s"

text \<open>\<^verbatim>\<open>s.rstrip(chars)\<close> with an explicit set of characters.\<close>

definition rstrip_chars :: "ustring \<Rightarrow> ustring \<Rightarrow> ustring" where
  "rstrip_chars chars s = rev (dropWhile (\<lambda>c. c \<in> set chars) (rev s))"

section \<open>Regular expressions\<close>

text \<open>
  Every pattern of the program is a sequence of items, each one a repetition of a character
  class (a literal character is a class repeated exactly once), an alternation of literal
  words, or the end anchor \<^verbatim>\<open>$\<close>. The matcher is the backtracking matcher of \<^verbatim>\<open>re\<close>: an
  item tries its candidate lengths in priority order (longest first for a greedy repetition,
  shortest first for a lazy one, the alternatives in the order written), and the first
  candidate for which the rest of the pattern matches wins. The result is the list of the
  lengths matched by the items, from which groups are read off.
\<close>

datatype atom =
    Rep "nat \<Rightarrow> bool" nat "nat option"
  | RepLazy "nat \<Rightarrow> bool" nat "nat option"
  | Alt "(nat \<Rightarrow> bool) list list"
  | Eol

definition lit :: "nat \<Rightarrow> atom" where
  "lit c = Rep (\<lambda>x. x = c) 1 (Some 1)"

definition lits :: "string \<Rightarrow> atom list" where
  "lits s = map (\<lambda>c. lit (of_char c)) s"

definition run_length :: "(nat \<Rightarrow> bool) \<Rightarrow> nat option \<Rightarrow> ustring \<Rightarrow> nat" where
  "run_length P hi s =
     (let n = length (takeWhile P s) in case hi of None \<Rightarrow> n | Some h \<Rightarrow> min h n)"

definition word_matches :: "(nat \<Rightarrow> bool) list \<Rightarrow> ustring \<Rightarrow> bool" where
  "word_matches w s \<longleftrightarrow> length w \<le> length s \<and> list_all2 (\<lambda>P c. P c) w (take (length w) s)"

fun cands :: "atom \<Rightarrow> ustring \<Rightarrow> nat list" where
  "cands (Rep P lo hi) s =
     (let m = run_length P hi s in if m < lo then [] else rev [lo..<Suc m])"
| "cands (RepLazy P lo hi) s =
     (let m = run_length P hi s in if m < lo then [] else [lo..<Suc m])"
| "cands (Alt ws) s = map length (filter (\<lambda>w. word_matches w s) ws)"
| "cands Eol s = (if s = [] \<or> s = [10] then [0] else [])"

fun first_some :: "('a \<Rightarrow> 'b option) \<Rightarrow> 'a list \<Rightarrow> 'b option" where
  "first_some f [] = None"
| "first_some f (x # xs) = (case f x of Some y \<Rightarrow> Some y | None \<Rightarrow> first_some f xs)"

primrec rmatch :: "atom list \<Rightarrow> ustring \<Rightarrow> nat list option" where
  "rmatch [] s = Some []"
| "rmatch (a # as) s =
     first_some (\<lambda>k. map_option ((#) k) (rmatch as (drop k s))) (cands a s)"

text \<open>The text matched by the items \<open>i..<j\<close> of a match of \<open>s\<close> with lengths \<open>lens\<close>.\<close>

definition seg :: "nat list \<Rightarrow> ustring \<Rightarrow> nat \<Rightarrow> nat \<Rightarrow> ustring" where
  "seg lens s i j =
     take (sum_list (take j lens) - sum_list (take i lens)) (drop (sum_list (take i lens)) s)"

text \<open>
  \<^verbatim>\<open>re.search\<close>: the match at the least start position, with that position.
\<close>

fun search_from :: "atom list \<Rightarrow> nat \<Rightarrow> ustring \<Rightarrow> (nat \<times> nat list) option" where
  "search_from rx p [] = map_option (Pair p) (rmatch rx [])"
| "search_from rx p (c # cs) =
     (case rmatch rx (c # cs) of
        Some lens \<Rightarrow> Some (p, lens)
      | None \<Rightarrow> search_from rx (Suc p) cs)"

definition re_search :: "atom list \<Rightarrow> ustring \<Rightarrow> (nat \<times> nat list) option" where
  "re_search rx s = search_from rx 0 s"

text \<open>
  \<^verbatim>\<open>re.sub\<close> and \<^verbatim>\<open>finditer\<close> for a pattern that matches no empty string (all patterns
  used with them need at least one character): the matches are found from left to right,
  each search starting where the previous match ended. \<open>repl\<close> gets the text from the start
  of the match on and the lengths of the items.
\<close>

fun re_sub :: "atom list \<Rightarrow> (ustring \<Rightarrow> nat list \<Rightarrow> ustring) \<Rightarrow> ustring \<Rightarrow> ustring" where
  "re_sub rx repl [] = []"
| "re_sub rx repl (c # cs) =
     (case rmatch rx (c # cs) of
        None \<Rightarrow> c # re_sub rx repl cs
      | Some lens \<Rightarrow>
          if sum_list lens = 0 then c # re_sub rx repl cs
          else repl (c # cs) lens @ re_sub rx repl (drop (sum_list lens - 1) cs))"

fun finditer_from :: "atom list \<Rightarrow> nat \<Rightarrow> ustring \<Rightarrow> (nat \<times> ustring) list" where
  "finditer_from rx p [] = []"
| "finditer_from rx p (c # cs) =
     (case rmatch rx (c # cs) of
        None \<Rightarrow> finditer_from rx (Suc p) cs
      | Some lens \<Rightarrow>
          if sum_list lens = 0 then finditer_from rx (Suc p) cs
          else (p, take (sum_list lens) (c # cs))
                 # finditer_from rx (p + sum_list lens) (drop (sum_list lens - 1) cs))"

definition finditer :: "atom list \<Rightarrow> ustring \<Rightarrow> (nat \<times> ustring) list" where
  "finditer rx s = finditer_from rx 0 s"

section \<open>sync\_app\_store\_metadata.py\<close>

subsection \<open>Dictionaries\<close>

text \<open>
  A Python \<^verbatim>\<open>dict\<close> keeps its keys in insertion order, and the program iterates over
  dictionaries, so a dictionary is an association list with distinct keys: a new key goes to
  the end, an assignment to a present key keeps its place.
\<close>

type_synonym ('k, 'v) pydict = "('k \<times> 'v) list"

definition dict_get :: "('k, 'v) pydict \<Rightarrow> 'k \<Rightarrow> 'v option" where
  "dict_get d k = map_of d k"

definition dict_set :: "('k, 'v) pydict \<Rightarrow> 'k \<Rightarrow> 'v \<Rightarrow> ('k, 'v) pydict" where
  "dict_set d k v =
     (if k \<in> fst ` set d then map (\<lambda>(k', v'). if k' = k then (k', v) else (k', v')) d
      else d @ [(k, v)])"

definition setdefault :: "('k, 'v) pydict \<Rightarrow> 'k \<Rightarrow> 'v \<Rightarrow> ('k, 'v) pydict" where
  "setdefault d k v = (if k \<in> fst ` set d then d else d @ [(k, v)])"

subsection \<open>Substitution table\<close>

text \<open>
  \<^verbatim>\<open>ASCII_MAP\<close>: em dash, en dash, the curly single and double quotes, the two ellipsis
  characters and the no-break space, with their ASCII replacements.
\<close>

definition ASCII_MAP :: "(ustring, ustring) pydict" where
  "ASCII_MAP =
     [([8212], ustr ''--''), ([8211], ustr ''-''), ([8217], [39]), ([8216], [39]),
      ([8220], [34]), ([8221], [34]), ([8230], ustr ''...''), ([8943], ustr ''...''),
      ([160], ustr '' '')]"

definition asciiize :: "ustring \<Rightarrow> ustring" where
  "asciiize text = fold (\<lambda>(src, dst) t. replace src dst t) ASCII_MAP text"

subsection \<open>Section splitter\<close>

text \<open>
  \<^verbatim>\<open>parse_sections\<close>: the loop state is the dictionary and the current heading. The label
  of a heading line is computed by \<open>heading_label\<close> (the two assignments to \<^verbatim>\<open>heading\<close>).
\<close>

definition heading_label :: "ustring \<Rightarrow> ustring" where
  "heading_label line =
     (let heading = strip (drop 3 line);
          heading = strip (hd (split_sep (ustr '' ('') heading))
      in heading)"

definition append_line :: "(ustring, ustring list) pydict \<Rightarrow> ustring \<Rightarrow> ustring \<Rightarrow> (ustring, ustring list) pydict" where
  "append_line sections current line =
     map (\<lambda>(k, ls). if k = current then (k, ls @ [line]) else (k, ls)) sections"

definition parse_step ::
  "(ustring, ustring list) pydict \<times> ustring option \<Rightarrow> ustring \<Rightarrow>
   (ustring, ustring list) pydict \<times> ustring option" where
  "parse_step st line =
     (case st of (sections, current) \<Rightarrow>
        if startswith line (ustr ''## '') then
          (let heading = heading_label line
           in (setdefault sections heading [], Some heading))
        else (case current of
                None \<Rightarrow> (sections, current)
              | Some cur \<Rightarrow> (append_line sections cur line, current)))"

definition parse_lines :: "ustring list \<Rightarrow> (ustring, ustring list) pydict" where
  "parse_lines ls = fst (foldl parse_step ([], None) ls)"

definition parse_sections :: "ustring \<Rightarrow> (ustring, ustring list) pydict" where
  "parse_sections text = parse_lines (splitlines text)"

subsection \<open>Normalizer\<close>

text \<open>
  \<^verbatim>\<open>strip_markdown\<close>. The first substitution is anchored at the start of the string, so it
  removes at most the one match there; the patterns are \<^verbatim>\<open>^#{1,6}\s+\<close> and
  \<^verbatim>\<open>\*([^*]+)\*\<close>, the latter replaced by its group.
\<close>

definition rx_heading :: "atom list" where
  "rx_heading = [Rep (\<lambda>c. c = 35) 1 (Some 6), Rep py_isspace 1 None]"

definition rx_italic :: "atom list" where
  "rx_italic = [lit 42, Rep (\<lambda>c. c \<noteq> 42) 1 None, lit 42]"

definition strip_markdown :: "ustring \<Rightarrow> ustring" where
  "strip_markdown line =
     (let line = (case rmatch rx_heading line of
                    Some lens \<Rightarrow> drop (sum_list lens) line
                  | None \<Rightarrow> line);
          line = replace (ustr ''**'') [] line;
          line = re_sub rx_italic (\<lambda>m lens. seg lens m 1 2) line
      in line)"

definition normalize_plain :: "ustring list \<Rightarrow> ustring" where
  "normalize_plain lines = strip (join [10] (map (\<lambda>line. asciiize (rstrip line)) lines))"

definition normalize_markdown :: "ustring list \<Rightarrow> ustring" where
  "normalize_markdown lines =
     strip (join [10] (map (\<lambda>line. asciiize (strip_markdown (rstrip line))) lines))"

subsection \<open>Field extractor\<close>

text \<open>
  \<^verbatim>\<open>parse_labeled_bullets\<close>, with the pattern \<^verbatim>\<open>^-\s+\*\*([^*]+)\*\*\s+(.*)$\<close> matched at the
  start of the stripped line. Group 1 is item 4 and group 2 is item 8 of \<open>rx_bullet\<close>.
  \<open>bullet_field\<close> is the body of the loop up to the assignment: the label and the value
  that a matching line stores.
\<close>

definition rx_bullet :: "atom list" where
  "rx_bullet =
     [lit 45, Rep py_isspace 1 None, lit 42, lit 42, Rep (\<lambda>c. c \<noteq> 42) 1 None, lit 42, lit 42,
      Rep py_isspace 1 None, Rep (\<lambda>c. c \<noteq> 10) 0 None, Eol]"

definition bullet_field :: "ustring \<Rightarrow> (ustring \<times> ustring) option" where
  "bullet_field line =
     (case rmatch rx_bullet (strip line) of
        None \<Rightarrow> None
      | Some lens \<Rightarrow>
          (let label = rstrip_chars (ustr '':'') (strip (seg lens (strip line) 4 5))
           in Some (label, strip (seg lens (strip line) 8 9))))"

definition bullet_step :: "(ustring, ustring) pydict \<Rightarrow> ustring \<Rightarrow> (ustring, ustring) pydict" where
  "bullet_step data line =
     (case bullet_field line of
        None \<Rightarrow> data
      | Some (label, v) \<Rightarrow> dict_set data label v)"

definition parse_labeled_bullets :: "ustring list \<Rightarrow> (ustring, ustring) pydict" where
  "parse_labeled_bullets lines = foldl bullet_step [] lines"

text \<open>
  Exceptions. \<^verbatim>\<open>require\<close> raises \<^verbatim>\<open>KeyError(key)\<close>; \<^verbatim>\<open>value.split()[0]\<close> raises
  \<^verbatim>\<open>IndexError\<close> on a value without a non-whitespace character.
\<close>

datatype py_error = KeyError ustring | IndexError

definition first_word :: "ustring \<Rightarrow> py_error + ustring" where
  "first_word v = (case py_split v of [] \<Rightarrow> Inl IndexError | w # _ \<Rightarrow> Inr w)"

text \<open>\<^verbatim>\<open>extract_url\<close>, with the patterns \<^verbatim>\<open><([^>]+)>\<close> and \<^verbatim>\<open>https?://\S+\<close>.\<close>

definition rx_bracketed :: "atom list" where
  "rx_bracketed = [lit 60, Rep (\<lambda>c. c \<noteq> 62) 1 None, lit 62]"

definition rx_http :: "atom list" where
  "rx_http = lits ''http'' @ [Rep (\<lambda>c. c = 115) 0 (Some 1)] @ lits ''://''
               @ [Rep (\<lambda>c. \<not> py_isspace c) 1 None]"

definition extract_url :: "ustring \<Rightarrow> py_error + ustring" where
  "extract_url v =
     (if v = [] then Inr []
      else case re_search rx_bracketed v of
        Some (p, lens) \<Rightarrow> Inr (seg lens (drop p v) 1 2)
      | None \<Rightarrow>
         (case re_search rx_http v of
            Some (p, lens) \<Rightarrow> Inr (rstrip_chars (ustr '').,'') (take (sum_list lens) (drop p v)))
          | None \<Rightarrow> first_word v))"

text \<open>
  \<^verbatim>\<open>extract_email\<close>. The patterns are raw strings with doubled backslashes, so in
  \<^verbatim>\<open>mailto:([^>\\s]+)\<close> the class excludes \<^verbatim>\<open>>\<close>, the backslash and the letter \<^verbatim>\<open>s\<close>, and
  in \<^verbatim>\<open>[A-Za-z0-9._%+-]+@[A-Za-z0-9.-]+\\.[A-Za-z]{2,}\<close> the domain is followed by a literal
  backslash and one arbitrary character other than a newline.
\<close>

definition is_alnum :: "nat \<Rightarrow> bool" where
  "is_alnum c \<longleftrightarrow> (65 \<le> c \<and> c \<le> 90) \<or> (97 \<le> c \<and> c \<le> 122) \<or> (48 \<le> c \<and> c \<le> 57)"

definition is_alpha :: "nat \<Rightarrow> bool" where
  "is_alpha c \<longleftrightarrow> (65 \<le> c \<and> c \<le> 90) \<or> (97 \<le> c \<and> c \<le> 122)"

definition rx_mailto :: "atom list" where
  "rx_mailto = lits ''mailto:'' @ [Rep (\<lambda>c. c \<noteq> 62 \<and> c \<noteq> 92 \<and> c \<noteq> 115) 1 None]"

definition rx_email :: "atom list" where
  "rx_email =
     [Rep (\<lambda>c. is_alnum c \<or> c \<in> set (ustr ''._%+-'')) 1 None, lit 64,
      Rep (\<lambda>c. is_alnum c \<or> c \<in> set (ustr ''.-'')) 1 None, lit 92,
      Rep (\<lambda>c. c \<noteq> 10) 1 (Some 1), Rep is_alpha 2 None]"

definition extract_email :: "ustring \<Rightarrow> py_error + ustring" where
  "extract_email v =
     (if v = [] then Inr []
      else case re_search rx_mailto v of
        Some (p, lens) \<Rightarrow> Inr (seg lens (drop p v) 7 8)
      | None \<Rightarrow>
         (case re_search rx_email v of
            Some (p, lens) \<Rightarrow> Inr (take (sum_list lens) (drop p v))
          | None \<Rightarrow> first_word v))"

text \<open>
  \<^verbatim>\<open>extract_phone\<close>. In the raw pattern \<^verbatim>\<open>\\+?\\d[\\d\\s().-]{6,}\<close> every doubled backslash
  is a literal backslash: one or more backslashes (lazily), a backslash, the letter \<^verbatim>\<open>d\<close>,
  then six or more characters out of backslash, \<^verbatim>\<open>d\<close>, \<^verbatim>\<open>s\<close>, parentheses, dot and hyphen.
\<close>

definition rx_phone :: "atom list" where
  "rx_phone =
     [RepLazy (\<lambda>c. c = 92) 1 None, lit 92, lit 100,
      Rep (\<lambda>c. c = 92 \<or> c \<in> set (ustr ''ds().-'')) 6 None]"

definition extract_phone :: "ustring \<Rightarrow> ustring" where
  "extract_phone v =
     (if v = [] then []
      else case re_search rx_phone v of
        Some (p, lens) \<Rightarrow> strip (take (sum_list lens) (drop p v))
      | None \<Rightarrow> strip v)"

text \<open>
  \<^verbatim>\<open>extract_subsection\<close> and \<^verbatim>\<open>extract_note_lines\<close> compare lower-cased text. The Unicode
  case mapping of \<^verbatim>\<open>str.lower\<close> is a table of the Python runtime, not of the program; it is
  the parameter \<open>lower\<close> of these functions and of \<open>main\<close>.
\<close>

fun index_where :: "('a \<Rightarrow> bool) \<Rightarrow> 'a list \<Rightarrow> nat option" where
  "index_where P [] = None"
| "index_where P (x # xs) = (if P x then Some 0 else map_option Suc (index_where P xs))"

definition extract_subsection ::
  "(ustring \<Rightarrow> ustring) \<Rightarrow> ustring list \<Rightarrow> ustring \<Rightarrow> ustring list" where
  "extract_subsection lower lines heading =
     (let marker = lower (strip (ustr ''### '' @ heading)) in
      case index_where (\<lambda>line. lower (strip line) = marker) lines of
        None \<Rightarrow> []
      | Some idx \<Rightarrow>
          (let block = takeWhile (\<lambda>line. \<not> startswith line (ustr ''### '')) (drop (idx + 1) lines);
               block = dropWhile (\<lambda>line. strip line = []) block;
               block = rev (dropWhile (\<lambda>line. strip line = []) (rev block))
           in block))"

definition extract_note_lines :: "(ustring \<Rightarrow> ustring) \<Rightarrow> ustring list \<Rightarrow> ustring list" where
  "extract_note_lines lower lines =
     map (\<lambda>line. strip_markdown (strip line))
       (filter (\<lambda>line. startswith (lower (strip line)) (ustr ''note:'')) lines)"

subsection \<open>Names\<close>

text \<open>
  \<^verbatim>\<open>split_name\<close>: the parts are the whitespace-separated words that are not blank.
\<close>

definition split_name :: "ustring \<Rightarrow> ustring \<times> ustring" where
  "split_name full_name =
     (let parts = filter (\<lambda>part. strip part \<noteq> []) (py_split full_name)
      in if parts = [] then ([], [])
         else if length parts = 1 then (hd parts, [])
         else (hd parts, join (ustr '' '') (tl parts)))"

subsection \<open>Validator and emitter\<close>

text \<open>
  \<^verbatim>\<open>require\<close>, and the subscript \<^verbatim>\<open>mapping[key]\<close>, which raises \<^verbatim>\<open>KeyError\<close> on an
  absent key.
\<close>

definition require :: "(ustring, ustring) pydict \<Rightarrow> ustring \<Rightarrow> py_error + ustring" where
  "require mapping key =
     (case dict_get mapping key of
        None \<Rightarrow> Inl (KeyError key)
      | Some v \<Rightarrow> if strip v = [] then Inl (KeyError key) else Inr (strip v))"

definition subscript :: "(ustring, 'v) pydict \<Rightarrow> ustring \<Rightarrow> py_error + 'v" where
  "subscript d k = (case dict_get d k of None \<Rightarrow> Inl (KeyError k) | Some v \<Rightarrow> Inr v)"

text \<open>
  What a run of \<^verbatim>\<open>main\<close> leaves behind: the exit status, the message printed on standard
  error, the files written so far, in the order of writing (directory, file name, content),
  and the exception if one escaped (the interpreter then exits with status 1; its
  traceback is not modelled). The two success messages on standard output are not modelled.
\<close>

record result =
  exit_code :: nat
  stderr :: ustring
  written :: "(ustring \<times> ustring \<times> ustring) list"
  uncaught :: "py_error option"

definition failed :: "ustring \<Rightarrow> (ustring \<times> ustring \<times> ustring) list \<Rightarrow> result" where
  "failed msg w = \<lparr>exit_code = 1, stderr = msg, written = w, uncaught = None\<rparr>"

definition crashed :: "py_error \<Rightarrow> (ustring \<times> ustring \<times> ustring) list \<Rightarrow> result" where
  "crashed e w = \<lparr>exit_code = 1, stderr = [], written = w, uncaught = Some e\<rparr>"

definition succeeded :: "(ustring \<times> ustring \<times> ustring) list \<Rightarrow> result" where
  "succeeded w = \<lparr>exit_code = 0, stderr = [], written = w, uncaught = None\<rparr>"

definition OUTPUT_DIR :: ustring where
  "OUTPUT_DIR = ustr ''fastlane/metadata/en-US''"

definition REVIEW_INFO_DIR :: ustring where
  "REVIEW_INFO_DIR = ustr ''fastlane/metadata/review_information''"

definition required_sections :: "ustring list" where
  "required_sections =
     [ustr ''Quick Reference'', ustr ''Promotional Text'', ustr ''Full Description'',
      ustr ''Keywords'', ustr ''URLs'']"

definition missing_sections :: "(ustring, ustring list) pydict \<Rightarrow> ustring list" where
  "missing_sections sections =
     filter (\<lambda>section. section \<notin> fst ` set sections) required_sections"

text \<open>The first key, in dictionary order, that starts with \<^verbatim>\<open>What's New in \<close>.\<close>

definition whats_new :: ustring where
  "whats_new = ustr ''What'' @ [39] @ ustr ''s New in ''"

definition find_release_key :: "(ustring, ustring list) pydict \<Rightarrow> ustring option" where
  "find_release_key sections = find (\<lambda>key. startswith key whats_new) (map fst sections)"

text \<open>The first \<^verbatim>\<open>try\<close> block: four calls of \<^verbatim>\<open>require\<close>, in this order.\<close>

definition quick_ref_fields ::
  "(ustring, ustring) pydict \<Rightarrow> py_error + (ustring \<times> ustring \<times> ustring \<times> ustring)" where
  "quick_ref_fields quick_ref =
     (case require quick_ref (ustr ''Name'') of Inl e \<Rightarrow> Inl e | Inr name \<Rightarrow>
      case require quick_ref (ustr ''Subtitle'') of Inl e \<Rightarrow> Inl e | Inr subtitle \<Rightarrow>
      case require quick_ref (ustr ''Primary Category'') of Inl e \<Rightarrow> Inl e | Inr primary_category \<Rightarrow>
      case require quick_ref (ustr ''Secondary Category'') of Inl e \<Rightarrow> Inl e | Inr secondary_category \<Rightarrow>
        Inr (name, subtitle, primary_category, secondary_category))"

text \<open>The second \<^verbatim>\<open>try\<close> block: \<^verbatim>\<open>extract_url(require(urls, key))\<close> for three keys.\<close>

definition required_url :: "(ustring, ustring) pydict \<Rightarrow> ustring \<Rightarrow> py_error + ustring" where
  "required_url urls key = (case require urls key of Inl e \<Rightarrow> Inl e | Inr v \<Rightarrow> extract_url v)"

definition url_fields ::
  "(ustring, ustring) pydict \<Rightarrow> py_error + (ustring \<times> ustring \<times> ustring)" where
  "url_fields urls =
     (case required_url urls (ustr ''Marketing URL'') of Inl e \<Rightarrow> Inl e | Inr marketing_url \<Rightarrow>
      case required_url urls (ustr ''Support URL'') of Inl e \<Rightarrow> Inl e | Inr support_url \<Rightarrow>
      case required_url urls (ustr ''Privacy Policy URL'') of Inl e \<Rightarrow> Inl e | Inr privacy_url \<Rightarrow>
        Inr (marketing_url, support_url, privacy_url))"

text \<open>The dictionary \<^verbatim>\<open>files\<close>, in the order of its literal.\<close>

definition primary_files ::
  "(ustring, ustring list) pydict \<Rightarrow> ustring \<Rightarrow> (ustring \<times> ustring \<times> ustring \<times> ustring) \<Rightarrow>
   (ustring \<times> ustring \<times> ustring) \<Rightarrow> py_error + (ustring, ustring) pydict" where
  "primary_files sections release_key qr us =
     (case qr of (name, subtitle, primary_category, secondary_category) \<Rightarrow>
      case us of (marketing_url, support_url, privacy_url) \<Rightarrow>
      case subscript sections (ustr ''Promotional Text'') of Inl e \<Rightarrow> Inl e | Inr promotional \<Rightarrow>
      case subscript sections (ustr ''Full Description'') of Inl e \<Rightarrow> Inl e | Inr description \<Rightarrow>
      case subscript sections (ustr ''Keywords'') of Inl e \<Rightarrow> Inl e | Inr keywords \<Rightarrow>
      case subscript sections release_key of Inl e \<Rightarrow> Inl e | Inr release_notes \<Rightarrow>
        Inr [(ustr ''name.txt'', asciiize name),
             (ustr ''subtitle.txt'', asciiize subtitle),
             (ustr ''promotional_text.txt'', normalize_plain promotional),
             (ustr ''description.txt'', normalize_markdown description),
             (ustr ''keywords.txt'', normalize_plain keywords),
             (ustr ''release_notes.txt'', normalize_markdown release_notes),
             (ustr ''marketing_url.txt'', asciiize marketing_url),
             (ustr ''support_url.txt'', asciiize support_url),
             (ustr ''privacy_url.txt'', asciiize privacy_url),
             (ustr ''primary_category.txt'', asciiize primary_category),
             (ustr ''secondary_category.txt'', asciiize secondary_category)])"

text \<open>
  The two writing loops: each file is checked for empty content and, if it has some, written
  at once; the loop returns the name of the first file without content, with the files
  written until then.
\<close>

fun write_files ::
  "ustring \<Rightarrow> (ustring, ustring) pydict \<Rightarrow> (ustring \<times> ustring \<times> ustring) list \<Rightarrow>
   ustring option \<times> (ustring \<times> ustring \<times> ustring) list" where
  "write_files dir [] w = (None, w)"
| "write_files dir ((filename, content) # rest) w =
     (if content = [] then (Some filename, w)
      else write_files dir rest (w @ [(dir, filename, strip content @ [10])]))"

text \<open>The review block under \<^verbatim>\<open>if review_info:\<close>, up to the dictionary \<^verbatim>\<open>review_files\<close>.\<close>

definition review_notes ::
  "(ustring \<Rightarrow> ustring) \<Rightarrow> ustring list \<Rightarrow> (ustring, ustring) pydict \<Rightarrow> ustring" where
  "review_notes lower review_section review_info =
     (let notes_parts = [];
          notes_parts = (case dict_get review_info (ustr ''Demo Account'') of
                           None \<Rightarrow> notes_parts
                         | Some demo_account \<Rightarrow>
                             if demo_account = [] then notes_parts
                             else notes_parts @ [ustr ''Demo account: '' @ strip_markdown demo_account]);
          notes_parts = (case dict_get review_info (ustr ''Availability'') of
                           None \<Rightarrow> notes_parts
                         | Some availability \<Rightarrow>
                             if availability = [] then notes_parts
                             else notes_parts @ [ustr ''Availability: '' @ strip_markdown availability]);
          demo_content = extract_subsection lower review_section (ustr ''Demo Content Provided'');
          demo_content = filter (\<lambda>line. \<not> startswith (lower (strip line)) (ustr ''note:'')) demo_content;
          notes_parts = (if demo_content = [] then notes_parts
                         else notes_parts @ [ustr ''Demo content provided:'' @ [10] @ normalize_markdown demo_content]);
          walkthrough = extract_subsection lower review_section (ustr ''Reviewer Walkthrough'');
          notes_parts = (if walkthrough = [] then notes_parts
                         else notes_parts @ [ustr ''Reviewer walkthrough:'' @ [10] @ normalize_markdown walkthrough]);
          note_lines = extract_note_lines lower review_section;
          notes_parts = (if note_lines = [] then notes_parts
                         else notes_parts @ [join [10] note_lines])
      in strip (join [10, 10] notes_parts))"

definition review_fields ::
  "(ustring, ustring) pydict \<Rightarrow> py_error + (ustring \<times> ustring \<times> ustring)" where
  "review_fields review_info =
     (case require review_info (ustr ''Contact Name'') of Inl e \<Rightarrow> Inl e | Inr contact_name \<Rightarrow>
      case require review_info (ustr ''Contact Email'') of Inl e \<Rightarrow> Inl e | Inr contact_email \<Rightarrow>
      case require review_info (ustr ''Contact Phone'') of Inl e \<Rightarrow> Inl e | Inr contact_phone \<Rightarrow>
        Inr (contact_name, contact_email, contact_phone))"

definition review_files ::
  "(ustring \<Rightarrow> ustring) \<Rightarrow> ustring list \<Rightarrow> (ustring, ustring) pydict \<Rightarrow>
   (ustring \<times> ustring \<times> ustring) \<Rightarrow> py_error + (ustring, ustring) pydict" where
  "review_files lower review_section review_info contact =
     (case contact of (contact_name, contact_email, contact_phone) \<Rightarrow>
      case split_name (strip_markdown contact_name) of (first_name, last_name) \<Rightarrow>
      case extract_email contact_email of Inl e \<Rightarrow> Inl e | Inr email \<Rightarrow>
        (let phone = extract_phone (strip_markdown contact_phone);
             notes = review_notes lower review_section review_info;
             files = [(ustr ''first_name.txt'', asciiize first_name),
                      (ustr ''last_name.txt'', asciiize last_name),
                      (ustr ''email_address.txt'', asciiize email),
                      (ustr ''phone_number.txt'', asciiize phone)];
             files = (if notes = [] then files else dict_set files (ustr ''notes.txt'') (asciiize notes))
         in Inr files))"

text \<open>
  \<^verbatim>\<open>main\<close>. \<open>source\<close> is the path of the metadata document and \<open>doc\<close> its text, \<open>None\<close>
  when the file does not exist. The function is cut into its stages, each one calling the
  next where the Python code runs on: the review block (lines 223--279), the emission of the
  primary files (lines 200--221), the required fields (lines 178--198), the required
  sections (lines 161--176) and the source file (lines 154--159). A \<^verbatim>\<open>KeyError\<close> is caught
  inside the \<^verbatim>\<open>try\<close> blocks only, an \<^verbatim>\<open>IndexError\<close> nowhere.
\<close>

definition on_error ::
  "ustring \<Rightarrow> (ustring \<times> ustring \<times> ustring) list \<Rightarrow> py_error \<Rightarrow> result" where
  "on_error prefix w e =
     (case e of KeyError k \<Rightarrow> failed (prefix @ k) w | IndexError \<Rightarrow> crashed IndexError w)"

definition main_review ::
  "(ustring \<Rightarrow> ustring) \<Rightarrow> ustring list \<Rightarrow> (ustring \<times> ustring \<times> ustring) list \<Rightarrow> result" where
  "main_review lower review_section w =
     (let review_info = parse_labeled_bullets review_section in
      if review_info = [] then succeeded w
      else case review_fields review_info of
        Inl e \<Rightarrow> on_error (ustr ''Missing Review Information field: '') w e
      | Inr contact \<Rightarrow>
         (case review_files lower review_section review_info contact of
            Inl e \<Rightarrow> crashed e w
          | Inr rfiles \<Rightarrow>
             (case write_files REVIEW_INFO_DIR rfiles w of (missing, w') \<Rightarrow>
                case missing of
                  Some filename \<Rightarrow>
                    failed (ustr ''Missing content for review information '' @ filename) w'
                | None \<Rightarrow> succeeded w')))"

definition main_emit ::
  "(ustring \<Rightarrow> ustring) \<Rightarrow> (ustring, ustring list) pydict \<Rightarrow> ustring \<Rightarrow>
   (ustring \<times> ustring \<times> ustring \<times> ustring) \<Rightarrow> (ustring \<times> ustring \<times> ustring) \<Rightarrow> result" where
  "main_emit lower sections release_key qr us =
     (case primary_files sections release_key qr us of
        Inl e \<Rightarrow> crashed e []
      | Inr files \<Rightarrow>
         (case write_files OUTPUT_DIR files [] of (missing, w) \<Rightarrow>
            case missing of
              Some filename \<Rightarrow> failed (ustr ''Missing content for '' @ filename) w
            | None \<Rightarrow>
                main_review lower
                  (case dict_get sections (ustr ''Review Information'') of
                     None \<Rightarrow> [] | Some ls \<Rightarrow> ls) w))"

definition main_fields ::
  "(ustring \<Rightarrow> ustring) \<Rightarrow> (ustring, ustring list) pydict \<Rightarrow> ustring \<Rightarrow> result" where
  "main_fields lower sections release_key =
     (case subscript sections (ustr ''Quick Reference'') of
        Inl e \<Rightarrow> crashed e []
      | Inr quick_ref_lines \<Rightarrow>
     (case subscript sections (ustr ''URLs'') of
        Inl e \<Rightarrow> crashed e []
      | Inr url_lines \<Rightarrow>
     (case quick_ref_fields (parse_labeled_bullets quick_ref_lines) of
        Inl e \<Rightarrow> on_error (ustr ''Missing Quick Reference field: '') [] e
      | Inr qr \<Rightarrow>
     (case url_fields (parse_labeled_bullets url_lines) of
        Inl e \<Rightarrow> on_error (ustr ''Missing URL field: '') [] e
      | Inr us \<Rightarrow> main_emit lower sections release_key qr us))))"

definition missing_release_notes :: ustring where
  "missing_release_notes =
     ustr ''Missing release notes section (expected '' @ [39] @ whats_new @ ustr ''X.Y.Z''
       @ [39] @ ustr '')''"

definition main_sections ::
  "(ustring \<Rightarrow> ustring) \<Rightarrow> (ustring, ustring list) pydict \<Rightarrow> result" where
  "main_sections lower sections =
     (if missing_sections sections \<noteq> [] then
        failed (ustr ''Missing sections: '' @ join (ustr '', '') (missing_sections sections)) []
      else case find_release_key sections of
        None \<Rightarrow> failed missing_release_notes []
      | Some release_key \<Rightarrow>
          if release_key = [] then failed missing_release_notes []
          else main_fields lower sections release_key)"

definition main :: "(ustring \<Rightarrow> ustring) \<Rightarrow> ustring \<Rightarrow> ustring option \<Rightarrow> result" where
  "main lower source doc =
     (case doc of
        None \<Rightarrow> failed (ustr ''Missing source file: '' @ source) []
      | Some text \<Rightarrow> main_sections lower (parse_sections text))"

section \<open>secret\_scan.py\<close>

text \<open>
  \<^verbatim>\<open>SUSPICIOUS_PATTERNS\<close>. The first pattern is \<^verbatim>\<open>sk-[A-Za-z0-9]{24,}\<close>. The second,
  \<^verbatim>\<open>(?i)(api|token|secret|bearer)[-_ ]?(key|token)?\s*[:=]\s*['"][A-Za-z0-9_\-]{20,}\<close>, ignores
  case: a letter of the pattern matches every character whose lower-case form it is, which
  beside the ASCII capital adds U+212A to \<^verbatim>\<open>k\<close>, U+0130 and U+0131 to \<^verbatim>\<open>i\<close> and U+017F to
  \<^verbatim>\<open>s\<close>; the letter ranges of the class gain these four characters.
\<close>

definition ci :: "nat \<Rightarrow> nat \<Rightarrow> bool" where
  "ci x c \<longleftrightarrow>
     c = x \<or> (97 \<le> x \<and> x \<le> 122 \<and> c + 32 = x) \<or> (x = 107 \<and> c = 8490) \<or>
     (x = 105 \<and> (c = 304 \<or> c = 305)) \<or> (x = 115 \<and> c = 383)"

definition ci_word :: "string \<Rightarrow> (nat \<Rightarrow> bool) list" where
  "ci_word w = map (\<lambda>x. ci (of_char x)) w"

definition rx_openai_key :: "atom list" where
  "rx_openai_key = lits ''sk-'' @ [Rep is_alnum 24 None]"

definition rx_generic_token :: "atom list" where
  "rx_generic_token =
     [Alt [ci_word ''api'', ci_word ''token'', ci_word ''secret'', ci_word ''bearer''],
      Rep (\<lambda>c. c \<in> set (ustr ''-_ '')) 0 (Some 1),
      Alt [ci_word ''key'', ci_word ''token'', []],
      Rep py_isspace 0 None,
      Rep (\<lambda>c. c \<in> set (ustr '':='')) 1 (Some 1),
      Rep py_isspace 0 None,
      Rep (\<lambda>c. c = 39 \<or> c = 34) 1 (Some 1),
      Rep (\<lambda>c. is_alnum c \<or> c = 95 \<or> c = 45 \<or> c = 304 \<or> c = 305 \<or> c = 383 \<or> c = 8490) 20 None]"

definition SUSPICIOUS_PATTERNS :: "(ustring \<times> atom list) list" where
  "SUSPICIOUS_PATTERNS =
     [(ustr ''openai_key'', rx_openai_key), (ustr ''generic_token'', rx_generic_token)]"

text \<open>
  \<^verbatim>\<open>scan_file\<close>: the argument is the decoded text of the file, \<open>None\<close> when decoding raises
  \<^verbatim>\<open>UnicodeDecodeError\<close>. A finding is (line number, label, matched text), the line number
  being one more than the number of \<^verbatim>\<open>\n\<close> before the start of the match.
\<close>

definition line_number :: "ustring \<Rightarrow> nat \<Rightarrow> nat" where
  "line_number contents start = length (filter (\<lambda>c. c = 10) (take start contents)) + 1"

definition scan_file :: "ustring option \<Rightarrow> (nat \<times> ustring \<times> ustring) list" where
  "scan_file file =
     (case file of
        None \<Rightarrow> []
      | Some contents \<Rightarrow>
          concat (map (\<lambda>(label, pattern).
                    map (\<lambda>(start, m). (line_number contents start, label, m))
                        (finditer pattern contents))
                  SUSPICIOUS_PATTERNS))"

text \<open>
  \<^verbatim>\<open>main\<close> of the scanner, over the files that \<^verbatim>\<open>iter_candidate_files\<close> yields (path and
  text): the findings of all files, and the exit status.
\<close>

definition scan_findings ::
  "(ustring \<times> ustring option) list \<Rightarrow> (ustring \<times> nat \<times> ustring \<times> ustring) list" where
  "scan_findings files =
     concat (map (\<lambda>(file_path, file).
               map (\<lambda>(line_number, label, snippet). (file_path, line_number, label, snippet))
                   (scan_file file))
             files)"

definition secret_scan_main :: "(ustring \<times> ustring option) list \<Rightarrow> nat" where
  "secret_scan_main files = (if scan_findings files = [] then 0 else 1)"

section \<open>generate\_portfolio\_content.py\<close>

text \<open>
  \<^verbatim>\<open>extract_api_coverage\<close>. The loop runs over \<^verbatim>\<open>content.split("\n")\<close> with the flag
  \<^verbatim>\<open>in_table\<close>; \<^verbatim>\<open>break\<close> ends it. The check marks are U+2705 and U+1F7E1.
\<close>

record coverage =
  feature :: ustring
  status :: ustring
  details :: ustring

definition table_marker :: ustring where
  "table_marker = ustr ''| API Feature Category''"

definition coverage_row :: "ustring \<Rightarrow> coverage list" where
  "coverage_row line =
     (let parts = map strip (butlast (tl (split_sep (ustr ''|'') line))) in
      if length parts \<ge> 3 \<and> parts ! 0 \<noteq> [] then
        [\<lparr>feature = replace (ustr ''**'') [] (parts ! 0),
          status = (if contains (parts ! 1) [9989] then ustr ''complete''
                    else if contains (parts ! 1) [128993] then ustr ''partial''
                    else ustr ''pending''),
          details = take 80 (parts ! 2)\<rparr>]
      else [])"

fun coverage_loop :: "bool \<Rightarrow> ustring list \<Rightarrow> coverage list" where
  "coverage_loop in_table [] = []"
| "coverage_loop in_table (line # rest) =
     (if contains line table_marker then coverage_loop True rest
      else if in_table then
        (if startswith line (ustr ''|'') \<and> \<not> contains line (ustr ''---'')
         then coverage_row line @ coverage_loop in_table rest
         else if \<not> startswith line (ustr ''|'') then []
         else coverage_loop in_table rest)
      else coverage_loop in_table rest)"

definition extract_api_coverage :: "ustring \<Rightarrow> coverage list" where
  "extract_api_coverage content = coverage_loop False (split_sep [10] content)"

section \<open>Properties\<close>

subsection \<open>Whitespace splitting and \<open>split_name\<close>\<close>

lemma split_ws_acc_nonempty: "[] \<notin> set (split_ws_acc cur s)"
  by (induction cur s rule: split_ws_acc.induct) auto

lemma split_ws_acc_concat:
  "concat (split_ws_acc cur s) = cur @ filter (\<lambda>c. \<not> py_isspace c) s"
  by (induction cur s rule: split_ws_acc.induct) auto

lemma py_split_parts:
  assumes "p \<in> set (py_split s)"
  shows "p \<noteq> []" and "\<forall>c\<in>set p. \<not> py_isspace c"
proof -
  from assms show "p \<noteq> []"
    unfolding py_split_def using split_ws_acc_nonempty [of "[]" s] by metis
  from assms have "set p \<subseteq> set (concat (py_split s))" by auto
  also have "\<dots> = set (filter (\<lambda>c. \<not> py_isspace c) s)"
    by (simp only: py_split_def split_ws_acc_concat append_Nil)
  finally show "\<forall>c\<in>set p. \<not> py_isspace c" by auto
qed

lemma lstrip_no_space: "\<forall>c\<in>set p. \<not> py_isspace c \<Longrightarrow> lstrip p = p"
  by (cases p) (simp_all add: lstrip_def)

lemma rstrip_no_space: "\<forall>c\<in>set p. \<not> py_isspace c \<Longrightarrow> rstrip p = p"
  by (cases "rev p") (simp_all add: rstrip_def)

lemma strip_no_space: "\<forall>c\<in>set p. \<not> py_isspace c \<Longrightarrow> strip p = p"
  by (simp add: strip_def lstrip_no_space rstrip_no_space)

lemma filter_py_split: "filter (\<lambda>part. strip part \<noteq> []) (py_split s) = py_split s"
proof (rule filter_True, rule ballI)
  fix p assume a: "p \<in> set (py_split s)"
  from py_split_parts(2) [OF a] have "strip p = p" by (rule strip_no_space)
  with py_split_parts(1) [OF a] show "strip p \<noteq> []" by simp
qed

lemma split_ws_acc_Nil_iff:
  "split_ws_acc cur s = [] \<longleftrightarrow> cur = [] \<and> (\<forall>c\<in>set s. py_isspace c)"
  by (induction cur s rule: split_ws_acc.induct) auto

lemma py_split_Nil_iff: "py_split s = [] \<longleftrightarrow> (\<forall>c\<in>set s. py_isspace c)"
  by (simp add: py_split_def split_ws_acc_Nil_iff)

text \<open>
  Claim C10: \<^verbatim>\<open>split_name\<close> decomposes its input at whitespace. An input with no
  non-whitespace character gives \<open>("", "")\<close>; an input with exactly one part gives
  that part and \<open>""\<close>; with two or more parts the first name is the first part, and first
  and last name joined by one space are the parts joined by single spaces.
\<close>

theorem split_name_decomposition:
  "((\<forall>c\<in>set s. py_isspace c) \<longrightarrow> split_name s = ([], [])) \<and>
   (\<forall>p. py_split s = [p] \<longrightarrow> split_name s = (p, [])) \<and>
   (2 \<le> length (py_split s) \<longrightarrow>
      fst (split_name s) = hd (py_split s) \<and>
      join (ustr '' '') [fst (split_name s), snd (split_name s)] = join (ustr '' '') (py_split s))"
proof (intro conjI impI allI)
  assume "\<forall>c\<in>set s. py_isspace c"
  then have "py_split s = []" by (simp add: py_split_Nil_iff)
  then show "split_name s = ([], [])" by (simp add: split_name_def)
next
  fix p assume "py_split s = [p]"
  with filter_py_split [of s] have "filter (\<lambda>part. strip part \<noteq> []) (py_split s) = [p]" by simp
  then show "split_name s = (p, [])" unfolding split_name_def Let_def by simp
next
  assume len: "2 \<le> length (py_split s)"
  then obtain p ps' where ps': "py_split s = p # ps'"
    by (cases "py_split s") auto
  with len obtain q qs where "ps' = q # qs"
    by (cases ps') auto
  with ps' have ps: "py_split s = p # q # qs" by simp
  with filter_py_split [of s]
  have f: "filter (\<lambda>part. strip part \<noteq> []) (py_split s) = p # q # qs" by simp
  have sn: "split_name s = (p, join (ustr '' '') (q # qs))"
    unfolding split_name_def Let_def f by simp
  show "fst (split_name s) = hd (py_split s)"
    by (simp add: sn ps)
  show "join (ustr '' '') [fst (split_name s), snd (split_name s)] = join (ustr '' '') (py_split s)"
    by (simp add: sn ps)
qed

theorem split_name_decomposition_witness:
  "split_name (ustr ''   '') = ([], []) \<and>
   split_name (ustr '' Ada '') = (ustr ''Ada'', []) \<and>
   fst (split_name (ustr ''  Ada   Lovelace King '')) = ustr ''Ada'' \<and>
   join (ustr '' '') [fst (split_name (ustr ''  Ada   Lovelace King '')),
                      snd (split_name (ustr ''  Ada   Lovelace King ''))] = ustr ''Ada Lovelace King''"
proof -
  let ?X = "ustr ''  Ada   Lovelace King ''"
  have a: "\<forall>c\<in>set (ustr ''   ''). py_isspace c"
    by (simp add: ustr_def py_isspace_def)
  have b: "py_split (ustr '' Ada '') = [ustr ''Ada'']"
    by (simp add: py_split_def ustr_def py_isspace_def)
  have c: "py_split ?X = [ustr ''Ada'', ustr ''Lovelace'', ustr ''King'']"
    by (simp add: py_split_def ustr_def py_isspace_def)
  have d: "join (ustr '' '') [ustr ''Ada'', ustr ''Lovelace'', ustr ''King''] = ustr ''Ada Lovelace King''"
    by (simp add: ustr_def)
  have e: "2 \<le> length (py_split ?X)"
    unfolding c by simp
  have 1: "split_name (ustr ''   '') = ([], [])"
    by (rule mp [OF split_name_decomposition [THEN conjunct1] a])
  have 2: "split_name (ustr '' Ada '') = (ustr ''Ada'', [])"
    by (rule mp [OF spec [OF split_name_decomposition [THEN conjunct2, THEN conjunct1]] b])
  have 3: "fst (split_name ?X) = hd (py_split ?X) \<and>
     join (ustr '' '') [fst (split_name ?X), snd (split_name ?X)] = join (ustr '' '') (py_split ?X)"
    by (rule mp [OF split_name_decomposition [THEN conjunct2, THEN conjunct2] e])
  have 4: "hd (py_split ?X) = ustr ''Ada''"
    unfolding c by simp
  show ?thesis
    using 1 2 3 unfolding c d list.sel by blast
qed

subsection \<open>Section splitter\<close>

lemmas str_eval = ustr_def startswith_def strip_def lstrip_def rstrip_def py_isspace_def
  split_sep_def heading_label_def


lemma keys_append_line: "fst ` set (append_line m cur l) = fst ` set m"
  by (induction m) (auto simp: append_line_def)


lemma keys_setdefault: "fst ` set (setdefault m k v) = insert k (fst ` set m)"
  by (auto simp: setdefault_def)

lemma parse_step_heading:
  "startswith h (ustr ''## '') \<Longrightarrow>
     parse_step (m, cur) h = (setdefault m (heading_label h) [], Some (heading_label h))"
  by (simp add: parse_step_def Let_def)


lemma parse_step_keys: "fst ` set (fst st) \<subseteq> fst ` set (fst (parse_step st l))"
  by (cases st) (auto simp: parse_step_def Let_def keys_setdefault keys_append_line split: option.splits)

lemma foldl_parse_step_keys: "fst ` set (fst st) \<subseteq> fst ` set (fst (foldl parse_step st ls))"
proof (induction ls arbitrary: st)
  case Nil
  show ?case by simp
next
  case (Cons l ls)
  have "fst ` set (fst st) \<subseteq> fst ` set (fst (parse_step st l))" by (rule parse_step_keys)
  also have "\<dots> \<subseteq> fst ` set (fst (foldl parse_step (parse_step st l) ls))" by (rule Cons.IH)
  finally show ?case by simp
qed








lemma find_from_None_iff: "find_from sub p s = None \<longleftrightarrow> find_from sub 0 s = None"
proof (induction s arbitrary: p)
  case Nil
  show ?case by simp
next
  case (Cons c cs)
  from Cons.IH [of "Suc p"] Cons.IH [of "Suc 0"] show ?case by simp
qed

lemma contains_Cons:
  "contains (c # cs) sub \<longleftrightarrow> startswith (c # cs) sub \<or> contains cs sub"
proof (cases "startswith (c # cs) sub")
  case True
  then show ?thesis by (simp add: contains_def find_sub_def)
next
  case False
  then have "find_from sub 0 (c # cs) = find_from sub (Suc 0) cs" by simp
  with False find_from_None_iff [of sub "Suc 0" cs] show ?thesis
    by (simp only: contains_def find_sub_def) simp
qed

lemma contains_dropWhile: "\<not> contains s sub \<Longrightarrow> \<not> contains (dropWhile P s) sub"
  by (induction s) (auto simp: contains_Cons)

lemma hd_split_paren_acc:
  "\<not> contains H (ustr '' ('') \<Longrightarrow>
     hd (split_sep_acc (ustr '' ('') cur (H @ ustr '' ('' @ R)) = cur @ H"
proof (induction H arbitrary: cur)
  case Nil
  show ?case by (simp add: ustr_def startswith_def)
next
  case (Cons c cs)
  from Cons.prems have c: "\<not> startswith (c # cs) (ustr '' ('')" and cs: "\<not> contains cs (ustr '' ('')"
    by (simp_all add: contains_Cons)
  from c have "\<not> startswith (c # cs @ ustr '' ('' @ R) (ustr '' ('')"
    by (cases cs) (auto simp: startswith_def ustr_def)
  with Cons.IH [OF cs, of "cur @ [c]"] show ?case by simp
qed

lemma hd_split_paren:
  "\<not> contains H (ustr '' ('') \<Longrightarrow> hd (split_sep (ustr '' ('') (H @ ustr '' ('' @ R)) = H"
  using hd_split_paren_acc [of H "[]" R] by (simp add: split_sep_def)

lemma lstrip_append: "\<exists>c\<in>set H. \<not> py_isspace c \<Longrightarrow> lstrip (H @ X) = lstrip H @ X"
proof -
  assume "\<exists>c\<in>set H. \<not> py_isspace c"
  then obtain c where "c \<in> set H" "\<not> py_isspace c" by blast
  then show ?thesis unfolding lstrip_def by (rule dropWhile_append1)
qed

lemma rstrip_append_nonspace: "\<not> py_isspace c \<Longrightarrow> rstrip (A @ c # R) = A @ c # rstrip R"
proof -
  assume c: "\<not> py_isspace c"
  show ?thesis
  proof (cases "\<forall>x\<in>set (rev R). py_isspace x")
    case True
    then have "dropWhile py_isspace (rev R @ c # rev A) = dropWhile py_isspace (c # rev A)"
      by (intro dropWhile_append2) blast
    moreover from True have "dropWhile py_isspace (rev R) = []" by simp
    ultimately show ?thesis using c by (simp add: rstrip_def)
  next
    case False
    then obtain x where "x \<in> set (rev R)" "\<not> py_isspace x" by blast
    then have "dropWhile py_isspace (rev R @ c # rev A) = dropWhile py_isspace (rev R) @ c # rev A"
      by (rule dropWhile_append1)
    then show ?thesis by (simp add: rstrip_def)
  qed
qed

lemma strip_lstrip: "strip (lstrip s) = strip s"
  by (simp add: strip_def lstrip_def dropWhile_idem)

lemma heading_label_paren:
  assumes "\<exists>c\<in>set H. \<not> py_isspace c" and "\<not> contains H (ustr '' ('')"
  shows "heading_label (ustr ''## '' @ H @ ustr '' ('' @ R) = strip H"
proof -
  have d: "drop 3 (ustr ''## '' @ H @ ustr '' ('' @ R) = H @ ustr '' ('' @ R"
    by (simp add: ustr_def)
  have "strip (H @ ustr '' ('' @ R) = rstrip (lstrip H @ ustr '' ('' @ R)"
    by (simp add: strip_def lstrip_append [OF assms(1)])
  also have "\<dots> = rstrip ((lstrip H @ [32]) @ 40 # R)" by (simp add: ustr_def)
  also have "\<dots> = (lstrip H @ [32]) @ 40 # rstrip R"
    by (rule rstrip_append_nonspace) (simp add: py_isspace_def)
  also have "\<dots> = lstrip H @ ustr '' ('' @ rstrip R" by (simp add: ustr_def)
  finally have s: "strip (H @ ustr '' ('' @ R) = lstrip H @ ustr '' ('' @ rstrip R" .
  from assms(2) have "\<not> contains (lstrip H) (ustr '' ('')"
    unfolding lstrip_def by (rule contains_dropWhile)
  then have "hd (split_sep (ustr '' ('') (lstrip H @ ustr '' ('' @ rstrip R)) = lstrip H"
    by (rule hd_split_paren)
  then show ?thesis
    unfolding heading_label_def Let_def d s by (simp add: strip_lstrip)
qed

lemma parse_lines_key:
  "startswith h (ustr ''## '') \<Longrightarrow> heading_label h \<in> fst ` set (parse_lines (pre @ h # post))"
proof -
  assume h: "startswith h (ustr ''## '')"
  let ?s0 = "foldl parse_step ([], None) pre"
  obtain m cur where s0: "?s0 = (m, cur)" by (cases ?s0)
  have "heading_label h \<in> fst ` set (fst (parse_step ?s0 h))"
    by (simp add: s0 parse_step_heading [OF h] keys_setdefault)
  also have "\<dots> \<subseteq> fst ` set (fst (foldl parse_step (parse_step ?s0 h) post))"
    by (rule foldl_parse_step_keys)
  finally show ?thesis by (simp add: parse_lines_def)
qed

text \<open>
  Claim C7, as amended: for a level-2 heading line whose heading text \<open>H\<close> (with a
  non-whitespace character, and without the two characters space, opening parenthesis) is
  followed by a space and an opening parenthesis, the label of the section is \<open>H\<close>
  whitespace-trimmed: the text is cut at the first occurrence of a space followed by an
  opening parenthesis. The label is a key of the resulting sections.
\<close>

theorem heading_label_cut_at_space_paren:
  assumes "\<exists>c\<in>set H. \<not> py_isspace c" and "\<not> contains H (ustr '' ('')"
  shows "heading_label (ustr ''## '' @ H @ ustr '' ('' @ R) = strip H \<and>
         strip H \<in> fst ` set (parse_lines (pre @ (ustr ''## '' @ H @ ustr '' ('' @ R) # post))"
proof -
  let ?h = "ustr ''## '' @ H @ ustr '' ('' @ R"
  have "startswith ?h (ustr ''## '')" by (simp add: startswith_def ustr_def)
  from parse_lines_key [OF this, of pre post] heading_label_paren [OF assms, of R]
  show ?thesis by simp
qed

theorem heading_label_cut_at_space_paren_witness:
  "heading_label (ustr ''## Full Description (4000 chars max)'') = ustr ''Full Description'' \<and>
   ustr ''Full Description'' \<in> fst ` set (parse_lines [ustr ''intro'', ustr ''## Full Description (4000 chars max)'', ustr ''text''])"
proof -
  have 1: "\<exists>c\<in>set (ustr ''Full Description''). \<not> py_isspace c" by (simp add: ustr_def py_isspace_def)
  have 2: "\<not> contains (ustr ''Full Description'') (ustr '' ('')"
    by (simp add: contains_def find_sub_def startswith_def ustr_def)
  have 3: "strip (ustr ''Full Description'') = ustr ''Full Description''" by (simp add: str_eval)
  have 4: "ustr ''## '' @ ustr ''Full Description'' @ ustr '' ('' @ ustr ''4000 chars max)'' = ustr ''## Full Description (4000 chars max)''"
    by (simp add: ustr_def)
  from heading_label_cut_at_space_paren [OF 1 2, of "ustr ''4000 chars max)''" "[ustr ''intro'']" "[ustr ''text'']"]
  show ?thesis unfolding 3 4 by simp
qed

theorem heading_label_parenthetical_counterexample:
  "heading_label (ustr ''## Foo(bar)'') = ustr ''Foo(bar)'' \<and>
   heading_label (ustr ''## Foo(bar)'') \<noteq> ustr ''Foo'' \<and>
   map fst (parse_sections (ustr ''## Foo(bar)'' @ [10] @ ustr ''x'')) = [ustr ''Foo(bar)'']"
  by (simp add: parse_sections_def splitlines_def is_linebreak_def parse_lines_def parse_step_def
        setdefault_def append_line_def Let_def str_eval)

subsection \<open>Stripping\<close>

lemma lstrip_nonspace_hd: "\<not> py_isspace c \<Longrightarrow> lstrip (c # r) = c # r"
  by (simp add: lstrip_def)

lemma rstrip_all_space: "(\<And>x. x \<in> set ws \<Longrightarrow> py_isspace x) \<Longrightarrow> rstrip ws = []"
  by (simp add: rstrip_def)

lemma rstrip_append:
  assumes "c \<in> set Y" and "\<not> py_isspace c"
  shows "rstrip (A @ Y) = A @ rstrip Y"
proof -
  from assms have "c \<in> set (rev Y)" by simp
  with assms(2) have "dropWhile py_isspace (rev Y @ rev A) = dropWhile py_isspace (rev Y) @ rev A"
    by (intro dropWhile_append1)
  then show ?thesis by (simp add: rstrip_def)
qed

lemma lstrip_nonempty:
  assumes "c \<in> set Y" and "\<not> py_isspace c"
  shows "lstrip Y \<noteq> []" and "\<not> py_isspace (hd (lstrip Y))"
proof -
  from assms show "lstrip Y \<noteq> []" by (auto simp: lstrip_def)
  then show "\<not> py_isspace (hd (lstrip Y))" unfolding lstrip_def by (rule hd_dropWhile)
qed

lemma rstrip_last:
  assumes "rstrip Y \<noteq> []"
  shows "\<not> py_isspace (last (rstrip Y))"
proof -
  from assms have n: "dropWhile py_isspace (rev Y) \<noteq> []" by (simp add: rstrip_def)
  then have "\<not> py_isspace (hd (dropWhile py_isspace (rev Y)))" by (rule hd_dropWhile)
  with n show ?thesis by (simp add: rstrip_def last_rev)
qed

lemma rstrip_eq_Nil_iff: "rstrip Y = [] \<longleftrightarrow> (\<forall>x\<in>set Y. py_isspace x)"
  by (auto simp: rstrip_def dropWhile_eq_Nil_conv)

lemma lstrip_eq_Nil_iff: "lstrip Y = [] \<longleftrightarrow> (\<forall>x\<in>set Y. py_isspace x)"
  by (auto simp: lstrip_def dropWhile_eq_Nil_conv)

lemma set_lstrip: "set (lstrip Y) \<subseteq> set Y"
  unfolding lstrip_def by (rule set_dropWhileD [THEN subsetI]) 

lemma set_rstrip: "set (rstrip Y) \<subseteq> set Y"
proof
  fix x assume "x \<in> set (rstrip Y)"
  then have "x \<in> set (dropWhile py_isspace (rev Y))" by (simp add: rstrip_def)
  then have "x \<in> set (rev Y)" by (rule set_dropWhileD)
  then show "x \<in> set Y" by simp
qed

lemma set_strip: "set (strip Y) \<subseteq> set Y"
  unfolding strip_def using set_rstrip [of "lstrip Y"] set_lstrip [of Y] by blast

lemma strip_eq_Nil_iff: "strip Y = [] \<longleftrightarrow> (\<forall>x\<in>set Y. py_isspace x)"
proof
  assume "strip Y = []"
  then have "\<forall>x\<in>set (lstrip Y). py_isspace x" by (simp add: strip_def rstrip_eq_Nil_iff)
  then have "lstrip Y = []"
    unfolding lstrip_def by (metis hd_dropWhile hd_in_set)
  then show "\<forall>x\<in>set Y. py_isspace x" by (simp add: lstrip_eq_Nil_iff)
next
  assume "\<forall>x\<in>set Y. py_isspace x"
  then have "lstrip Y = []" by (simp add: lstrip_eq_Nil_iff)
  then show "strip Y = []" by (simp add: strip_def rstrip_def)
qed

lemma strip_hd_last:
  assumes "strip Y \<noteq> []"
  shows "\<not> py_isspace (hd (strip Y))" and "\<not> py_isspace (last (strip Y))"
proof -
  from assms show l: "\<not> py_isspace (last (strip Y))" unfolding strip_def by (rule rstrip_last)
  from assms have "lstrip Y \<noteq> []" by (auto simp: strip_def rstrip_def)
  then have h: "\<not> py_isspace (hd (lstrip Y))" unfolding lstrip_def by (rule hd_dropWhile)
  from \<open>lstrip Y \<noteq> []\<close> obtain c r where cr: "lstrip Y = c # r" by (cases "lstrip Y") auto
  with h have c: "\<not> py_isspace c" by simp
  have "rstrip (c # r) = c # rstrip r"
    using rstrip_append_nonspace [OF c, of "[]" r] by simp
  with cr c show "\<not> py_isspace (hd (strip Y))" by (simp add: strip_def)
qed

lemma strip_idem: "strip (strip Y) = strip Y"
proof (cases "strip Y = []")
  case True
  have "strip [] = []" by (simp add: strip_def lstrip_def rstrip_def)
  then show ?thesis unfolding True .
next
  case False
  from strip_hd_last [OF False] False have 1: "lstrip (strip Y) = strip Y"
    by (cases "strip Y") (simp_all add: lstrip_def)
  from strip_hd_last(2) [OF False] False have "rstrip (strip Y) = strip Y"
    by (cases "rev (strip Y)") (simp_all add: rstrip_def last_rev [symmetric] hd_rev)
  with 1 show ?thesis by (simp add: strip_def [of "strip Y"])
qed

lemma strip_decompose:
  assumes "c \<in> set Y" and "\<not> py_isspace c"
  shows "rstrip Y = takeWhile py_isspace Y @ strip Y"
proof -
  from assms have "c \<in> set (lstrip Y)"
    unfolding lstrip_def by (induction Y) auto
  from rstrip_append [OF this assms(2), of "takeWhile py_isspace Y"]
  show ?thesis by (simp add: strip_def lstrip_def)
qed

subsection \<open>The matcher\<close>

lemma first_some_Some: "first_some f xs = Some y \<Longrightarrow> \<exists>x\<in>set xs. f x = Some y"
  by (induction xs) (auto split: option.splits)

lemma first_some_None: "(\<And>x. x \<in> set xs \<Longrightarrow> f x = None) \<Longrightarrow> first_some f xs = None"
  by (induction xs) auto

lemma first_some_greedy:
  assumes "lo \<le> n" and "\<And>k. lo \<le> k \<Longrightarrow> k < n \<Longrightarrow> f k = None"
  shows "first_some f (rev [lo..<Suc n]) = f n"
proof -
  have "first_some f (rev [lo..<n]) = None"
    by (rule first_some_None) (use assms(2) in auto)
  with assms(1) show ?thesis by (cases "f n") simp_all
qed

lemma first_some_first: "f x = Some y \<Longrightarrow> first_some f (x # xs) = Some y"
  by simp

lemma rmatch_Cons_Some:
  assumes "rmatch (a # as) s = Some lens"
  obtains k ks where "lens = k # ks" and "k \<in> set (cands a s)" and "rmatch as (drop k s) = Some ks"
proof -
  from assms obtain k where k: "k \<in> set (cands a s)"
    and m: "map_option ((#) k) (rmatch as (drop k s)) = Some lens"
    by (auto dest: first_some_Some)
  from m obtain ks where "rmatch as (drop k s) = Some ks" "lens = k # ks" by auto
  with k that show ?thesis by blast
qed

lemma cands_Rep_bounds:
  assumes "k \<in> set (cands (Rep P lo hi) s)"
  shows "lo \<le> k" and "k \<le> length (takeWhile P s)"
  using assms by (auto simp: run_length_def Let_def split: if_splits option.splits)

lemma take_takeWhile_all:
  assumes "k \<le> length (takeWhile P s)"
  shows "length (take k s) = k" and "\<And>x. x \<in> set (take k s) \<Longrightarrow> P x"
proof -
  have "length (takeWhile P s) \<le> length s" by (rule length_takeWhile_le)
  with assms show "length (take k s) = k" by simp
  from assms have "take k s = take k (takeWhile P s)"
    by (induction s arbitrary: k) (auto simp: take_Cons' split: if_splits)
  then have "set (take k s) \<subseteq> set (takeWhile P s)" by (simp add: set_take_subset)
  then show "\<And>x. x \<in> set (take k s) \<Longrightarrow> P x" by (auto dest: set_takeWhileD)
qed

lemma rmatch_lit:
  "rmatch (lit c # as) s =
     (case s of [] \<Rightarrow> None | x # xs \<Rightarrow> if x = c then map_option ((#) 1) (rmatch as xs) else None)"
  by (cases s) (simp_all add: lit_def run_length_def split: option.splits)

lemma rmatch_Eol: "rmatch [Eol] s = (if s = [] \<or> s = [10] then Some [0] else None)"
  by simp

lemma run_length_all:
  assumes "\<And>x. x \<in> set u \<Longrightarrow> P x" and "v = [] \<or> \<not> P (hd v)"
  shows "run_length P None (u @ v) = length u"
proof -
  from assms(2) have "takeWhile P v = []" by (cases v) auto
  with assms(1) show ?thesis by (simp add: run_length_def takeWhile_append2)
qed

lemma rmatch_Rep_greedy:
  assumes "\<And>x. x \<in> set u \<Longrightarrow> P x" and "v = [] \<or> \<not> P (hd v)" and "lo \<le> length u"
    and "rmatch as v = Some ks"
  shows "rmatch (Rep P lo None # as) (u @ v) = Some (length u # ks)"
proof -
  have "cands (Rep P lo None) (u @ v) = length u # rev [lo..<length u]"
    using assms(3) run_length_all [of u P v] assms(1,2) by (simp add: Let_def)
  with assms(4) show ?thesis by simp
qed

lemma rmatch_Rep_then_lit:
  assumes "\<And>x. x \<in> set u \<Longrightarrow> P x" and "\<not> P c"
  shows "rmatch (Rep P lo None # lit c # as) (u @ c # v) =
     (if length u < lo then None else map_option ((#) (length u)) (rmatch (lit c # as) (c # v)))"
proof (cases "length u < lo")
  case True
  then show ?thesis using run_length_all [of u P "c # v"] assms by (simp add: Let_def)
next
  case False
  let ?f = "\<lambda>k. map_option ((#) k) (rmatch (lit c # as) (drop k (u @ c # v)))"
  have c: "cands (Rep P lo None) (u @ c # v) = rev [lo..<Suc (length u)]"
    using False run_length_all [of u P "c # v"] assms by (simp add: Let_def)
  have "first_some ?f (rev [lo..<Suc (length u)]) = ?f (length u)"
  proof (rule first_some_greedy)
    show "lo \<le> length u" using False by simp
  next
    fix k assume "lo \<le> k" "k < length u"
    then obtain x xs where d: "drop k u = x # xs" by (cases "drop k u") auto
    then have "x \<in> set u" by (metis in_set_dropD list.set_intros(1))
    with assms have "x \<noteq> c" by auto
    moreover from d \<open>k < length u\<close> have "drop k (u @ c # v) = x # xs @ c # v" by simp
    ultimately have "rmatch (lit c # as) (drop k (u @ c # v)) = None"
      by (subst rmatch_lit) simp
    then show "?f k = None" by simp
  qed
  with c False show ?thesis by simp
qed

subsection \<open>Labeled bullets\<close>


lemma not_space_star: "\<not> py_isspace 42"
  by (simp add: py_isspace_def)

lemma rx_bullet_tail:
  assumes ws: "ws \<noteq> []" "\<And>x. x \<in> set ws \<Longrightarrow> py_isspace x"
    and Y: "Y \<noteq> []" "\<not> py_isspace (hd Y)" "10 \<notin> set Y"
  shows "rmatch [Rep py_isspace 1 None, Rep (\<lambda>c. c \<noteq> 10) 0 None, Eol] (ws @ Y)
           = Some [length ws, length Y, 0]"
proof -
  have e: "rmatch [Eol] [] = Some [0]" by simp
  have "rmatch [Rep (\<lambda>c. c \<noteq> 10) 0 None, Eol] (Y @ []) = Some [length Y, 0]"
    by (rule rmatch_Rep_greedy [OF _ _ _ e]) (use Y(3) in auto)
  then have y: "rmatch [Rep (\<lambda>c. c \<noteq> 10) 0 None, Eol] Y = Some [length Y, 0]" by simp
  show ?thesis
    by (rule rmatch_Rep_greedy [OF ws(2) _ _ y]) (use ws(1) Y(2) in \<open>auto simp: Suc_le_eq\<close>)
qed

lemma rx_bullet_match:
  assumes ws1: "ws1 \<noteq> []" "\<And>x. x \<in> set ws1 \<Longrightarrow> py_isspace x"
    and X: "X \<noteq> []" "42 \<notin> set X"
    and ws2: "ws2 \<noteq> []" "\<And>x. x \<in> set ws2 \<Longrightarrow> py_isspace x"
    and Y: "Y \<noteq> []" "\<not> py_isspace (hd Y)" "10 \<notin> set Y"
  shows "rmatch rx_bullet (45 # ws1 @ 42 # 42 # X @ 42 # 42 # ws2 @ Y)
           = Some [1, length ws1, 1, 1, length X, 1, 1, length ws2, length Y, 0]"
proof -
  let ?t = "[Rep py_isspace 1 None, Rep (\<lambda>c. c \<noteq> 10) 0 None, Eol]"
  let ?r3 = "lit 42 # lit 42 # ?t"
  let ?r2 = "Rep (\<lambda>c. c \<noteq> 42) 1 None # ?r3"
  let ?r1 = "lit 42 # lit 42 # ?r2"
  let ?r0 = "Rep py_isspace 1 None # ?r1"
  have t: "rmatch ?t (ws2 @ Y) = Some [length ws2, length Y, 0]"
    by (rule rx_bullet_tail [OF ws2 Y])
  have 3: "rmatch ?r3 (42 # 42 # ws2 @ Y) = Some [1, 1, length ws2, length Y, 0]"
    using t by (simp add: rmatch_lit del: rmatch.simps)
  have "rmatch ?r2 (X @ 42 # 42 # ws2 @ Y) =
      (if length X < 1 then None
       else map_option ((#) (length X)) (rmatch ?r3 (42 # 42 # ws2 @ Y)))"
    by (rule rmatch_Rep_then_lit) (use X(2) in auto)
  with X(1) 3 have 2: "rmatch ?r2 (X @ 42 # 42 # ws2 @ Y)
      = Some [length X, 1, 1, length ws2, length Y, 0]"
    by (simp add: Suc_le_eq del: rmatch.simps)
  have 1: "rmatch ?r1 (42 # 42 # X @ 42 # 42 # ws2 @ Y)
      = Some [1, 1, length X, 1, 1, length ws2, length Y, 0]"
    using 2 by (simp add: rmatch_lit del: rmatch.simps)
  have "rmatch ?r0 (ws1 @ 42 # 42 # X @ 42 # 42 # ws2 @ Y) =
      (if length ws1 < 1 then None
       else map_option ((#) (length ws1)) (rmatch ?r1 (42 # 42 # X @ 42 # 42 # ws2 @ Y)))"
    by (rule rmatch_Rep_then_lit) (use ws1(2) not_space_star in auto)
  with ws1(1) 1 have 0: "rmatch ?r0 (ws1 @ 42 # 42 # X @ 42 # 42 # ws2 @ Y)
      = Some [length ws1, 1, 1, length X, 1, 1, length ws2, length Y, 0]"
    by (simp add: Suc_le_eq del: rmatch.simps)
  show ?thesis
    unfolding rx_bullet_def using 0 by (simp add: rmatch_lit del: rmatch.simps)
qed

lemma rx_bullet_no_body:
  assumes ws1: "\<And>x. x \<in> set ws1 \<Longrightarrow> py_isspace x" and X: "42 \<notin> set X"
  shows "rmatch rx_bullet (45 # ws1 @ 42 # 42 # X @ [42, 42]) = None"
proof -
  let ?t = "[Rep py_isspace 1 None, Rep (\<lambda>c. c \<noteq> 10) 0 None, Eol]"
  let ?r3 = "lit 42 # lit 42 # ?t"
  let ?r2 = "Rep (\<lambda>c. c \<noteq> 42) 1 None # ?r3"
  let ?r1 = "lit 42 # lit 42 # ?r2"
  let ?r0 = "Rep py_isspace 1 None # ?r1"
  have t: "rmatch ?t [] = None" by (simp add: run_length_def)
  have 3: "rmatch ?r3 [42, 42] = None"
    using t by (simp add: rmatch_lit del: rmatch.simps)
  have "rmatch ?r2 (X @ 42 # [42]) =
      (if length X < 1 then None else map_option ((#) (length X)) (rmatch ?r3 (42 # [42])))"
    by (rule rmatch_Rep_then_lit) (use X in auto)
  with 3 have 2: "rmatch ?r2 (X @ [42, 42]) = None"
    by (simp del: rmatch.simps)
  have 1: "rmatch ?r1 (42 # 42 # X @ [42, 42]) = None"
    using 2 by (simp add: rmatch_lit del: rmatch.simps)
  have "rmatch ?r0 (ws1 @ 42 # 42 # X @ [42, 42]) =
      (if length ws1 < 1 then None
       else map_option ((#) (length ws1)) (rmatch ?r1 (42 # 42 # X @ [42, 42])))"
    by (rule rmatch_Rep_then_lit) (use ws1 not_space_star in auto)
  with 1 have 0: "rmatch ?r0 (ws1 @ 42 # 42 # X @ [42, 42]) = None"
    by (simp del: rmatch.simps)
  show ?thesis
    unfolding rx_bullet_def using 0 by (simp add: rmatch_lit del: rmatch.simps)
qed

lemma rmatch_lit_Some:
  assumes "rmatch (lit c # as) s = Some lens"
  obtains xs ks where "s = c # xs" and "lens = 1 # ks" and "rmatch as xs = Some ks"
  using assms unfolding rmatch_lit by (cases s) (auto split: if_splits)

lemma rmatch_Rep_Some:
  assumes "rmatch (Rep P lo hi # as) s = Some lens"
  obtains k ks where "lens = k # ks" and "lo \<le> k" and "length (take k s) = k"
    and "\<forall>x\<in>set (take k s). P x" and "rmatch as (drop k s) = Some ks"
proof -
  from assms obtain k ks where l: "lens = k # ks" and k: "k \<in> set (cands (Rep P lo hi) s)"
    and r: "rmatch as (drop k s) = Some ks" by (rule rmatch_Cons_Some)
  from cands_Rep_bounds [OF k] take_takeWhile_all [of k P s] l r that show ?thesis by blast
qed

lemma stripped_last:
  assumes "strip line = A @ [c]"
  shows "\<not> py_isspace c"
  using strip_hd_last(2) [of line] assms by simp

lemma bullet_value_nonempty:
  assumes "bullet_field line = Some (k, v)"
  shows "v \<noteq> []"
proof -
  let ?s = "strip line"
  from assms obtain lens where m: "rmatch rx_bullet ?s = Some lens"
    and v: "v = strip (seg lens ?s 8 9)"
    by (auto simp: bullet_field_def Let_def split: option.splits)
  from m [unfolded rx_bullet_def] obtain s1 l1 where s: "?s = 45 # s1" and l0: "lens = 1 # l1"
    and m1: "rmatch [Rep py_isspace 1 None, lit 42, lit 42, Rep (\<lambda>c. c \<noteq> 42) 1 None, lit 42, lit 42,
      Rep py_isspace 1 None, Rep (\<lambda>c. c \<noteq> 10) 0 None, Eol] s1 = Some l1"
    by (rule rmatch_lit_Some)
  from m1 obtain k1 l2 where l1: "l1 = k1 # l2" and k1: "length (take k1 s1) = k1"
    and m2: "rmatch [lit 42, lit 42, Rep (\<lambda>c. c \<noteq> 42) 1 None, lit 42, lit 42,
      Rep py_isspace 1 None, Rep (\<lambda>c. c \<noteq> 10) 0 None, Eol] (drop k1 s1) = Some l2"
    by (rule rmatch_Rep_Some)
  from m2 obtain x2 l3 where d1: "drop k1 s1 = 42 # x2" and l2: "l2 = 1 # l3"
    and m3: "rmatch [lit 42, Rep (\<lambda>c. c \<noteq> 42) 1 None, lit 42, lit 42,
      Rep py_isspace 1 None, Rep (\<lambda>c. c \<noteq> 10) 0 None, Eol] x2 = Some l3"
    by (rule rmatch_lit_Some)
  from m3 obtain s2 l4 where x2: "x2 = 42 # s2" and l3: "l3 = 1 # l4"
    and m4: "rmatch [Rep (\<lambda>c. c \<noteq> 42) 1 None, lit 42, lit 42,
      Rep py_isspace 1 None, Rep (\<lambda>c. c \<noteq> 10) 0 None, Eol] s2 = Some l4"
    by (rule rmatch_lit_Some)
  from m4 obtain k2 l5 where l4: "l4 = k2 # l5" and k2: "length (take k2 s2) = k2"
    and m5: "rmatch [lit 42, lit 42,
      Rep py_isspace 1 None, Rep (\<lambda>c. c \<noteq> 10) 0 None, Eol] (drop k2 s2) = Some l5"
    by (rule rmatch_Rep_Some)
  from m5 obtain x3 l6 where d2: "drop k2 s2 = 42 # x3" and l5: "l5 = 1 # l6"
    and m6: "rmatch [lit 42, Rep py_isspace 1 None, Rep (\<lambda>c. c \<noteq> 10) 0 None, Eol] x3 = Some l6"
    by (rule rmatch_lit_Some)
  from m6 obtain s3 l7 where x3: "x3 = 42 # s3" and l6: "l6 = 1 # l7"
    and m7: "rmatch [Rep py_isspace 1 None, Rep (\<lambda>c. c \<noteq> 10) 0 None, Eol] s3 = Some l7"
    by (rule rmatch_lit_Some)
  from m7 obtain k3 l8 where l7: "l7 = k3 # l8" and k3: "1 \<le> k3" "length (take k3 s3) = k3"
    and w3: "\<forall>x\<in>set (take k3 s3). py_isspace x"
    and m8: "rmatch [Rep (\<lambda>c. c \<noteq> 10) 0 None, Eol] (drop k3 s3) = Some l8"
    by (rule rmatch_Rep_Some)
  define t where "t = drop k3 s3"
  from m8 [folded t_def] obtain k4 l9 where l8: "l8 = k4 # l9" and k4: "length (take k4 t) = k4"
    and m9: "rmatch [Eol] (drop k4 t) = Some l9"
    by (rule rmatch_Rep_Some)
  from m9 have e: "drop k4 t = [] \<or> drop k4 t = [10]" and l9: "l9 = [0]"
    by (auto split: if_splits)
  have lens: "lens = [1, k1, 1, 1, k2, 1, 1, k3, k4, 0]"
    by (simp add: l0 l1 l2 l3 l4 l5 l6 l7 l8 l9)
  have s1: "s1 = take k1 s1 @ 42 # 42 # s2"
    using append_take_drop_id [of k1 s1] by (simp only: d1 x2)
  have s2: "s2 = take k2 s2 @ 42 # 42 # s3"
    using append_take_drop_id [of k2 s2] by (simp only: d2 x3)
  have s3: "s3 = take k3 s3 @ t" by (simp add: t_def)
  have t: "t = take k4 t @ drop k4 t" by simp
  define A where "A = 45 # take k1 s1 @ 42 # 42 # take k2 s2 @ [42, 42]"
  have sA: "?s = A @ s3"
    unfolding A_def s by (subst s1, subst s2) simp
  have lA: "length A = 1 + k1 + 1 + 1 + k2 + 1 + 1" using k1 k2 by (simp add: A_def)
  have dr: "drop (1 + k1 + 1 + 1 + k2 + 1 + 1 + k3) ?s = t"
    unfolding sA using lA by (simp add: t_def)
  have sg: "seg lens ?s 8 9 = take k4 t"
    unfolding seg_def lens using dr by (simp add: add.commute add.left_commute)
  have full: "drop k4 t = []"
  proof (rule ccontr)
    assume "drop k4 t \<noteq> []"
    with e have "drop k4 t = [10]" by simp
    with t have "t = take k4 t @ [10]" by simp
    with sA s3 have "?s = (A @ take k3 s3 @ take k4 t) @ [10]" by (metis append.assoc)
    then have "\<not> py_isspace 10" by (rule stripped_last)
    then show False by (simp add: py_isspace_def)
  qed
  then have tk: "take k4 t = t" using t by simp
  have tne: "t \<noteq> []"
  proof
    assume "t = []"
    with sA s3 have s': "?s = A @ take k3 s3" by (metis append_Nil2)
    from k3 have ne: "take k3 s3 \<noteq> []" by auto
    then have "take k3 s3 = butlast (take k3 s3) @ [last (take k3 s3)]" by simp
    with s' have "?s = (A @ butlast (take k3 s3)) @ [last (take k3 s3)]" by (metis append.assoc)
    then have "\<not> py_isspace (last (take k3 s3))" by (rule stripped_last)
    moreover from ne have "last (take k3 s3) \<in> set (take k3 s3)" by (rule last_in_set)
    ultimately show False using w3 by blast
  qed
  then have "t = butlast t @ [last t]" by simp
  with sA s3 have "?s = (A @ take k3 s3 @ butlast t) @ [last t]" by (metis append.assoc)
  then have "\<not> py_isspace (last t)" by (rule stripped_last)
  moreover from tne have "last t \<in> set t" by (rule last_in_set)
  ultimately have "strip t \<noteq> []" unfolding strip_eq_Nil_iff by blast
  then show ?thesis by (simp add: v sg tk)
qed

lemma seg_concat:
  assumes "i < length segs"
  shows "seg (map length segs) (concat segs) i (Suc i) = segs ! i"
proof -
  have l: "\<And>n. sum_list (take n (map length segs)) = length (concat (take n segs))"
    by (simp add: length_concat take_map)
  have c: "concat segs = concat (take i segs) @ segs ! i @ concat (drop (Suc i) segs)"
    using assms by (metis append_take_drop_id concat_append Cons_nth_drop_Suc concat.simps(2))
  have t: "take (Suc i) segs = take i segs @ [segs ! i]"
    using assms by (rule take_Suc_conv_app_nth)
  have "drop (length (concat (take i segs))) (concat segs) = segs ! i @ concat (drop (Suc i) segs)"
    by (subst c) simp
  then show ?thesis unfolding seg_def l by (simp add: t)
qed

lemma bullet_field_no_body:
  assumes "\<forall>c\<in>set ws1. py_isspace c" and "42 \<notin> set X" and "\<forall>c\<in>set ws. py_isspace c"
  shows "bullet_field (ustr ''-'' @ ws1 @ ustr ''**'' @ X @ ustr ''**'' @ ws) = None"
proof -
  let ?line = "ustr ''-'' @ ws1 @ ustr ''**'' @ X @ ustr ''**'' @ ws"
  have l: "?line = (45 # ws1 @ 42 # 42 # X @ [42]) @ 42 # ws" by (simp add: ustr_def)
  have ls: "lstrip ((45 # ws1 @ 42 # 42 # X @ [42]) @ 42 # ws)
      = (45 # ws1 @ 42 # 42 # X @ [42]) @ 42 # ws"
    by (simp add: lstrip_def py_isspace_def)
  have "strip ?line = rstrip (lstrip ?line)" by (simp only: strip_def)
  also have "\<dots> = rstrip ((45 # ws1 @ 42 # 42 # X @ [42]) @ 42 # ws)" by (simp only: l ls)
  also have "\<dots> = (45 # ws1 @ 42 # 42 # X @ [42]) @ 42 # rstrip ws"
    by (rule rstrip_append_nonspace) (simp add: py_isspace_def)
  also have "\<dots> = 45 # ws1 @ 42 # 42 # X @ [42, 42]"
    using assms(3) by (simp add: rstrip_eq_Nil_iff)
  finally have s: "strip ?line = 45 # ws1 @ 42 # 42 # X @ [42, 42]" .
  have "rmatch rx_bullet (45 # ws1 @ 42 # 42 # X @ [42, 42]) = None"
    by (rule rx_bullet_no_body) (use assms in auto)
  then show ?thesis unfolding bullet_field_def s by simp
qed

lemma bullet_field_body:
  assumes ws1: "ws1 \<noteq> []" "\<forall>c\<in>set ws1. py_isspace c"
    and X: "X \<noteq> []" "42 \<notin> set X"
    and ws2: "ws2 \<noteq> []" "\<forall>c\<in>set ws2. py_isspace c"
    and Y: "\<exists>c\<in>set Y. \<not> py_isspace c" "10 \<notin> set Y"
  shows "bullet_field (ustr ''-'' @ ws1 @ ustr ''**'' @ X @ ustr ''**'' @ ws2 @ Y)
           = Some (rstrip_chars (ustr '':'') (strip X), strip Y)"
proof -
  let ?line = "ustr ''-'' @ ws1 @ ustr ''**'' @ X @ ustr ''**'' @ ws2 @ Y"
  let ?w = "ws2 @ takeWhile py_isspace Y"
  let ?segs = "[[45], ws1, [42], [42], X, [42], [42], ?w, strip Y, []]"
  from Y(1) obtain c where c: "c \<in> set Y" "\<not> py_isspace c" by blast
  have l: "?line = (45 # ws1 @ 42 # 42 # X @ 42 # 42 # ws2) @ Y" by (simp add: ustr_def)
  have ls: "lstrip ((45 # ws1 @ 42 # 42 # X @ 42 # 42 # ws2) @ Y)
      = (45 # ws1 @ 42 # 42 # X @ 42 # 42 # ws2) @ Y"
    by (simp add: lstrip_def py_isspace_def)
  have "strip ?line = rstrip (lstrip ?line)" by (simp only: strip_def)
  also have "\<dots> = rstrip ((45 # ws1 @ 42 # 42 # X @ 42 # 42 # ws2) @ Y)" by (simp only: l ls)
  also have "\<dots> = (45 # ws1 @ 42 # 42 # X @ 42 # 42 # ws2) @ rstrip Y"
    by (rule rstrip_append [OF c])
  also have "\<dots> = 45 # ws1 @ 42 # 42 # X @ 42 # 42 # ?w @ strip Y"
    by (simp add: strip_decompose [OF c])
  finally have s: "strip ?line = 45 # ws1 @ 42 # 42 # X @ 42 # 42 # ?w @ strip Y" .
  have sY: "strip Y \<noteq> []" using Y(1) by (simp add: strip_eq_Nil_iff)
  have m: "rmatch rx_bullet (45 # ws1 @ 42 # 42 # X @ 42 # 42 # ?w @ strip Y)
      = Some [1, length ws1, 1, 1, length X, 1, 1, length ?w, length (strip Y), 0]"
  proof (rule rx_bullet_match)
    show "ws1 \<noteq> []" "X \<noteq> []" "42 \<notin> set X" "strip Y \<noteq> []" by (fact ws1 X sY)+
    show "\<And>x. x \<in> set ws1 \<Longrightarrow> py_isspace x" using ws1(2) by blast
    show "?w \<noteq> []" using ws2(1) by simp
    show "\<And>x. x \<in> set ?w \<Longrightarrow> py_isspace x" using ws2(2) by (auto dest: set_takeWhileD)
    show "\<not> py_isspace (hd (strip Y))" by (rule strip_hd_last(1) [OF sY])
    show "10 \<notin> set (strip Y)" using Y(2) set_strip [of Y] by blast
  qed
  have lens: "[1, length ws1, 1, 1, length X, 1, 1, length ?w, length (strip Y), 0] = map length ?segs"
    by simp
  have cc: "45 # ws1 @ 42 # 42 # X @ 42 # 42 # ?w @ strip Y = concat ?segs" by simp
  have g1: "seg (map length ?segs) (concat ?segs) 4 (Suc 4) = ?segs ! 4"
    by (rule seg_concat) simp
  have g2: "seg (map length ?segs) (concat ?segs) 8 (Suc 8) = ?segs ! 8"
    by (rule seg_concat) simp
  let ?lens = "[1, length ws1, 1, 1, length X, 1, 1, length ?w, length (strip Y), 0]"
  have m': "rmatch rx_bullet (strip ?line) = Some ?lens" by (simp only: s m)
  have g1': "seg ?lens (strip ?line) 4 5 = X" using g1 by (simp only: s lens cc) simp
  have g2': "seg ?lens (strip ?line) 8 9 = strip Y" using g2 by (simp only: s lens cc) simp
  show ?thesis
    by (simp only: bullet_field_def m' option.case Let_def g1' g2' strip_idem)
qed

lemma parse_labeled_bullets_snoc:
  "parse_labeled_bullets (ls @ [line]) = bullet_step (parse_labeled_bullets ls) line"
  by (simp add: parse_labeled_bullets_def)

text \<open>
  Claim C4, as amended: a labeled-bullet line with no body after the label (the closing
  markers followed by nothing but whitespace) does not match the pattern, which asks for
  whitespace and then the value after the closing markers of the stripped line. The line
  stores nothing, so the field stays absent unless another line sets it; and whenever a
  line does store a field, its value is not the empty string.
\<close>

theorem bullet_without_body_absent:
  assumes "\<forall>c\<in>set ws1. py_isspace c" and "42 \<notin> set X" and "\<forall>c\<in>set ws. py_isspace c"
  shows "bullet_field (ustr ''-'' @ ws1 @ ustr ''**'' @ X @ ustr ''**'' @ ws) = None \<and>
         parse_labeled_bullets (ls @ [ustr ''-'' @ ws1 @ ustr ''**'' @ X @ ustr ''**'' @ ws])
           = parse_labeled_bullets ls \<and>
         (\<forall>line k v. bullet_field line = Some (k, v) \<longrightarrow> v \<noteq> [])"
proof -
  have n: "bullet_field (ustr ''-'' @ ws1 @ ustr ''**'' @ X @ ustr ''**'' @ ws) = None"
    by (rule bullet_field_no_body [OF assms])
  then have "parse_labeled_bullets (ls @ [ustr ''-'' @ ws1 @ ustr ''**'' @ X @ ustr ''**'' @ ws])
           = parse_labeled_bullets ls"
    by (simp add: parse_labeled_bullets_snoc bullet_step_def)
  with n bullet_value_nonempty show ?thesis by blast
qed

lemma bullet_field_example:
  "bullet_field (ustr ''- **Name** Foo'') = Some (ustr ''Name'', ustr ''Foo'')"
proof -
  have "bullet_field (ustr ''-'' @ ustr '' '' @ ustr ''**'' @ ustr ''Name'' @ ustr ''**'' @ ustr '' '' @ ustr ''Foo'')
      = Some (rstrip_chars (ustr '':'') (strip (ustr ''Name'')), strip (ustr ''Foo''))"
    by (rule bullet_field_body) (simp_all add: ustr_def py_isspace_def)
  then show ?thesis by (simp add: ustr_def strip_def lstrip_def rstrip_def rstrip_chars_def py_isspace_def)
qed

theorem bullet_without_body_absent_witness:
  "bullet_field (ustr ''- **Label**'') = None \<and>
   parse_labeled_bullets [ustr ''- **Name** Foo'', ustr ''- **Label**'']
     = parse_labeled_bullets [ustr ''- **Name** Foo''] \<and>
   ustr ''Foo'' \<noteq> []"
proof -
  have 1: "\<forall>c\<in>set (ustr '' ''). py_isspace c" by (simp add: ustr_def py_isspace_def)
  have 2: "42 \<notin> set (ustr ''Label'')" by (simp add: ustr_def)
  have 3: "\<forall>c\<in>set []. py_isspace c" by simp
  have e: "ustr ''-'' @ ustr '' '' @ ustr ''**'' @ ustr ''Label'' @ ustr ''**'' @ [] = ustr ''- **Label**''"
    by (simp add: ustr_def)
  note t = bullet_without_body_absent [OF 1 2 3, of "[ustr ''- **Name** Foo'']", unfolded e]
  from t have a: "bullet_field (ustr ''- **Label**'') = None" by (rule conjunct1)
  from t have b: "parse_labeled_bullets ([ustr ''- **Name** Foo''] @ [ustr ''- **Label**''])
     = parse_labeled_bullets [ustr ''- **Name** Foo'']" by (rule conjunct2 [THEN conjunct1])
  from t have "\<forall>line k v. bullet_field line = Some (k, v) \<longrightarrow> v \<noteq> []"
    by (rule conjunct2 [THEN conjunct2])
  with bullet_field_example have c: "ustr ''Foo'' \<noteq> []" by blast
  from a b c show ?thesis by simp
qed

theorem bullet_without_body_counterexample:
  "dict_get (parse_labeled_bullets [ustr ''- **Label**'']) (ustr ''Label'') = None \<and>
   dict_get (parse_labeled_bullets [ustr ''- **Label**'']) (ustr ''Label'') \<noteq> Some []"
proof -
  have "bullet_field (ustr ''-'' @ ustr '' '' @ ustr ''**'' @ ustr ''Label'' @ ustr ''**'' @ []) = None"
    by (rule bullet_field_no_body) (simp_all add: ustr_def py_isspace_def)
  then have "bullet_field (ustr ''- **Label**'') = None" by (simp add: ustr_def)
  then have "parse_labeled_bullets [ustr ''- **Label**''] = []"
    by (simp add: parse_labeled_bullets_def bullet_step_def)
  then show ?thesis by (simp add: dict_get_def)
qed




subsection \<open>Validation in \<open>main\<close>\<close>

lemma require_Inl: "require m k = Inl e \<Longrightarrow> e = KeyError k"
  by (auto simp: require_def split: option.splits if_splits)

lemma require_Inr: "require m k = Inr v \<Longrightarrow> v \<noteq> [] \<and> (\<exists>w. v = strip w)"
  by (auto simp: require_def split: option.splits if_splits)

lemma first_word_ok:
  assumes "v \<noteq> []" and "v = strip w"
  shows "\<exists>u. first_word v = Inr u \<and> u \<noteq> []"
proof -
  from assms have "strip w \<noteq> []" by simp
  from strip_hd_last(1) [OF this] assms have "\<not> py_isspace (hd v)" by simp
  with assms(1) have "\<not> (\<forall>c\<in>set v. py_isspace c)" by (cases v) auto
  then have n: "py_split v \<noteq> []" by (simp add: py_split_Nil_iff)
  then obtain p ps where p: "py_split v = p # ps" by (cases "py_split v") auto
  then have "p \<in> set (py_split v)" by simp
  from py_split_parts(1) [OF this] p show ?thesis by (simp add: first_word_def)
qed

lemma extract_url_ok:
  assumes "v \<noteq> []" and "v = strip w"
  shows "\<exists>u. extract_url v = Inr u"
  using first_word_ok [OF assms] assms(1)
  by (auto simp: extract_url_def split: option.splits prod.splits)

lemma required_url_Inl: "isl (require m k) \<Longrightarrow> required_url m k = Inl (KeyError k)"
  by (cases "require m k") (auto simp: required_url_def dest: require_Inl)

lemma required_url_Inr: "\<not> isl (require m k) \<Longrightarrow> \<exists>u. required_url m k = Inr u"
proof -
  assume "\<not> isl (require m k)"
  then obtain v where v: "require m k = Inr v" by (cases "require m k") auto
  from require_Inr [OF v] obtain w where "v \<noteq> []" "v = strip w" by blast
  from extract_url_ok [OF this] v show ?thesis by (simp add: required_url_def)
qed

lemma require_isl: "isl (require m k) \<Longrightarrow> require m k = Inl (KeyError k)"
  by (cases "require m k") (auto dest: require_Inl)

lemma quick_ref_fields_first_missing:
  assumes "find (\<lambda>k. isl (require m k))
      [ustr ''Name'', ustr ''Subtitle'', ustr ''Primary Category'', ustr ''Secondary Category''] = Some k"
  shows "quick_ref_fields m = Inl (KeyError k)"
proof -
  let ?P = "\<lambda>k. isl (require m k)"
  have c: "\<And>k. \<not> ?P k \<Longrightarrow> \<exists>v. require m k = Inr v"
    by (metis isl_def sum.exhaust)
  consider (a) "?P (ustr ''Name'')" "k = ustr ''Name''"
    | (b) "\<not> ?P (ustr ''Name'')" "?P (ustr ''Subtitle'')" "k = ustr ''Subtitle''"
    | (c) "\<not> ?P (ustr ''Name'')" "\<not> ?P (ustr ''Subtitle'')" "?P (ustr ''Primary Category'')"
          "k = ustr ''Primary Category''"
    | (d) "\<not> ?P (ustr ''Name'')" "\<not> ?P (ustr ''Subtitle'')" "\<not> ?P (ustr ''Primary Category'')"
          "?P (ustr ''Secondary Category'')" "k = ustr ''Secondary Category''"
    using assms by (auto split: if_splits)
  then show ?thesis
  proof cases
    case a
    from require_isl [OF a(1)] show ?thesis by (simp add: quick_ref_fields_def a(2))
  next
    case b
    from c [OF b(1)] require_isl [OF b(2)] show ?thesis
      by (auto simp: quick_ref_fields_def b(3))
  next
    case c
    from \<open>\<And>k. \<not> ?P k \<Longrightarrow> \<exists>v. require m k = Inr v\<close> [OF c(1)]
         \<open>\<And>k. \<not> ?P k \<Longrightarrow> \<exists>v. require m k = Inr v\<close> [OF c(2)] require_isl [OF c(3)]
    show ?thesis by (auto simp: quick_ref_fields_def c(4))
  next
    case d
    from c [OF d(1)] c [OF d(2)] c [OF d(3)] require_isl [OF d(4)]
    show ?thesis by (auto simp: quick_ref_fields_def d(5))
  qed
qed

lemma quick_ref_fields_none_missing:
  assumes "find (\<lambda>k. isl (require m k))
      [ustr ''Name'', ustr ''Subtitle'', ustr ''Primary Category'', ustr ''Secondary Category''] = None"
  shows "\<exists>qr. quick_ref_fields m = Inr qr"
proof -
  have c: "\<And>k. \<not> isl (require m k) \<Longrightarrow> \<exists>v. require m k = Inr v"
    by (metis isl_def sum.exhaust)
  from assms have "\<not> isl (require m (ustr ''Name''))" "\<not> isl (require m (ustr ''Subtitle''))"
    "\<not> isl (require m (ustr ''Primary Category''))" "\<not> isl (require m (ustr ''Secondary Category''))"
    by (auto split: if_splits)
  from c [OF this(1)] c [OF this(2)] c [OF this(3)] c [OF this(4)]
  show ?thesis by (auto simp: quick_ref_fields_def)
qed

lemma url_fields_first_missing:
  assumes "find (\<lambda>k. isl (require m k))
      [ustr ''Marketing URL'', ustr ''Support URL'', ustr ''Privacy Policy URL''] = Some k"
  shows "url_fields m = Inl (KeyError k)"
proof -
  let ?P = "\<lambda>k. isl (require m k)"
  consider (a) "?P (ustr ''Marketing URL'')" "k = ustr ''Marketing URL''"
    | (b) "\<not> ?P (ustr ''Marketing URL'')" "?P (ustr ''Support URL'')" "k = ustr ''Support URL''"
    | (c) "\<not> ?P (ustr ''Marketing URL'')" "\<not> ?P (ustr ''Support URL'')"
          "?P (ustr ''Privacy Policy URL'')" "k = ustr ''Privacy Policy URL''"
    using assms by (auto split: if_splits)
  then show ?thesis
  proof cases
    case a
    from required_url_Inl [OF a(1)] show ?thesis by (simp add: url_fields_def a(2))
  next
    case b
    from required_url_Inr [OF b(1)] required_url_Inl [OF b(2)] show ?thesis
      by (auto simp: url_fields_def b(3))
  next
    case c
    from required_url_Inr [OF c(1)] required_url_Inr [OF c(2)] required_url_Inl [OF c(3)]
    show ?thesis by (auto simp: url_fields_def c(4))
  qed
qed

lemma url_fields_none_missing:
  assumes "find (\<lambda>k. isl (require m k))
      [ustr ''Marketing URL'', ustr ''Support URL'', ustr ''Privacy Policy URL''] = None"
  shows "\<exists>us. url_fields m = Inr us"
proof -
  from assms have "\<not> isl (require m (ustr ''Marketing URL''))" "\<not> isl (require m (ustr ''Support URL''))"
    "\<not> isl (require m (ustr ''Privacy Policy URL''))"
    by (auto split: if_splits)
  from required_url_Inr [OF this(1)] required_url_Inr [OF this(2)] required_url_Inr [OF this(3)]
  show ?thesis by (auto simp: url_fields_def)
qed

lemma find_release_key_nonempty: "find_release_key S = Some rk \<Longrightarrow> rk \<noteq> []"
  by (auto simp: find_release_key_def find_Some_iff startswith_def whats_new_def ustr_def)

lemma missing_sections_Nil:
  assumes "missing_sections S = []" and "n \<in> set required_sections"
  shows "\<exists>ls. subscript S n = Inr ls"
proof -
  from assms have "n \<in> fst ` set S"
    by (auto simp: missing_sections_def filter_empty_conv)
  then obtain ls where "map_of S n = Some ls"
    by (cases "map_of S n") (auto simp: map_of_eq_None_iff)
  then show ?thesis by (simp add: subscript_def dict_get_def)
qed

lemma main_fields_quick_ref_missing:
  assumes "missing_sections S = []"
    and "subscript S (ustr ''Quick Reference'') = Inr qrl"
    and "find (\<lambda>k. isl (require (parse_labeled_bullets qrl) k))
      [ustr ''Name'', ustr ''Subtitle'', ustr ''Primary Category'', ustr ''Secondary Category''] = Some k"
  shows "main_fields lower S rk = failed (ustr ''Missing Quick Reference field: '' @ k) []"
proof -
  have "ustr ''URLs'' \<in> set required_sections" by (simp add: required_sections_def)
  from missing_sections_Nil [OF assms(1) this] obtain ul where u: "subscript S (ustr ''URLs'') = Inr ul" ..
  from quick_ref_fields_first_missing [OF assms(3)] show ?thesis
    by (simp add: main_fields_def assms(2) u on_error_def)
qed

lemma main_fields_url_missing:
  assumes "missing_sections S = []"
    and "subscript S (ustr ''Quick Reference'') = Inr qrl"
    and "find (\<lambda>k. isl (require (parse_labeled_bullets qrl) k))
      [ustr ''Name'', ustr ''Subtitle'', ustr ''Primary Category'', ustr ''Secondary Category''] = None"
    and "subscript S (ustr ''URLs'') = Inr ul"
    and "find (\<lambda>k. isl (require (parse_labeled_bullets ul) k))
      [ustr ''Marketing URL'', ustr ''Support URL'', ustr ''Privacy Policy URL''] = Some k"
  shows "main_fields lower S rk = failed (ustr ''Missing URL field: '' @ k) []"
proof -
  from quick_ref_fields_none_missing [OF assms(3)] obtain qr
    where q: "quick_ref_fields (parse_labeled_bullets qrl) = Inr qr" ..
  from url_fields_first_missing [OF assms(5)] show ?thesis
    by (simp add: main_fields_def assms(2) assms(4) q on_error_def)
qed

lemma main_with_release_key:
  assumes "missing_sections (parse_sections text) = []"
    and "find_release_key (parse_sections text) = Some rk"
  shows "main lower source (Some text) = main_fields lower (parse_sections text) rk"
  using assms find_release_key_nonempty [OF assms(2)] by (simp add: main_def main_sections_def)

lemma main_missing_sections:
  assumes "missing_sections (parse_sections text) \<noteq> []"
  shows "main lower source (Some text) =
     failed (ustr ''Missing sections: '' @ join (ustr '', '') (missing_sections (parse_sections text))) []"
  using assms by (simp add: main_def main_sections_def)

text \<open>
  Claim C5: on a document that lacks required sections, \<open>main\<close> exits with status 1, writes
  nothing and prints one message with all missing required section names, in their fixed
  order. With all sections and the release notes there, the required fields are checked one
  after the other: the run stops at the first required Quick Reference field that is absent
  or blank, or else at the first such URL field, and the message names that field.
\<close>

theorem main_sections_batched_fields_fail_fast:
  "(let S = parse_sections text; r = main lower source (Some text) in
     (missing_sections S \<noteq> [] \<longrightarrow>
        set (missing_sections S) = {n \<in> set required_sections. n \<notin> fst ` set S} \<and>
        exit_code r = 1 \<and> written r = [] \<and>
        stderr r = ustr ''Missing sections: '' @ join (ustr '', '') (missing_sections S)) \<and>
     (missing_sections S = [] \<longrightarrow> find_release_key S \<noteq> None \<longrightarrow>
        (\<forall>qrl k. subscript S (ustr ''Quick Reference'') = Inr qrl \<longrightarrow>
           find (\<lambda>k. isl (require (parse_labeled_bullets qrl) k))
             [ustr ''Name'', ustr ''Subtitle'', ustr ''Primary Category'',
              ustr ''Secondary Category''] = Some k \<longrightarrow>
           exit_code r = 1 \<and> written r = [] \<and>
           stderr r = ustr ''Missing Quick Reference field: '' @ k) \<and>
        (\<forall>qrl ul k. subscript S (ustr ''Quick Reference'') = Inr qrl \<longrightarrow>
           find (\<lambda>k. isl (require (parse_labeled_bullets qrl) k))
             [ustr ''Name'', ustr ''Subtitle'', ustr ''Primary Category'',
              ustr ''Secondary Category''] = None \<longrightarrow>
           subscript S (ustr ''URLs'') = Inr ul \<longrightarrow>
           find (\<lambda>k. isl (require (parse_labeled_bullets ul) k))
             [ustr ''Marketing URL'', ustr ''Support URL'', ustr ''Privacy Policy URL''] = Some k \<longrightarrow>
           exit_code r = 1 \<and> written r = [] \<and>
           stderr r = ustr ''Missing URL field: '' @ k)))"
proof -
  let ?S = "parse_sections text"
  let ?r = "main lower source (Some text)"
  have 1: "missing_sections ?S \<noteq> [] \<longrightarrow>
        set (missing_sections ?S) = {n \<in> set required_sections. n \<notin> fst ` set ?S} \<and>
        exit_code ?r = 1 \<and> written ?r = [] \<and>
        stderr ?r = ustr ''Missing sections: '' @ join (ustr '', '') (missing_sections ?S)"
  proof
    assume m: "missing_sections ?S \<noteq> []"
    have "set (missing_sections ?S) = {n \<in> set required_sections. n \<notin> fst ` set ?S}"
      by (simp add: missing_sections_def)
    then show "set (missing_sections ?S) = {n \<in> set required_sections. n \<notin> fst ` set ?S} \<and>
        exit_code ?r = 1 \<and> written ?r = [] \<and>
        stderr ?r = ustr ''Missing sections: '' @ join (ustr '', '') (missing_sections ?S)"
      unfolding main_missing_sections [OF m] by (simp add: failed_def)
  qed
  have 2: "missing_sections ?S = [] \<longrightarrow> find_release_key ?S \<noteq> None \<longrightarrow>
        (\<forall>qrl k. subscript ?S (ustr ''Quick Reference'') = Inr qrl \<longrightarrow>
           find (\<lambda>k. isl (require (parse_labeled_bullets qrl) k))
             [ustr ''Name'', ustr ''Subtitle'', ustr ''Primary Category'',
              ustr ''Secondary Category''] = Some k \<longrightarrow>
           exit_code ?r = 1 \<and> written ?r = [] \<and>
           stderr ?r = ustr ''Missing Quick Reference field: '' @ k) \<and>
        (\<forall>qrl ul k. subscript ?S (ustr ''Quick Reference'') = Inr qrl \<longrightarrow>
           find (\<lambda>k. isl (require (parse_labeled_bullets qrl) k))
             [ustr ''Name'', ustr ''Subtitle'', ustr ''Primary Category'',
              ustr ''Secondary Category''] = None \<longrightarrow>
           subscript ?S (ustr ''URLs'') = Inr ul \<longrightarrow>
           find (\<lambda>k. isl (require (parse_labeled_bullets ul) k))
             [ustr ''Marketing URL'', ustr ''Support URL'', ustr ''Privacy Policy URL''] = Some k \<longrightarrow>
           exit_code ?r = 1 \<and> written ?r = [] \<and>
           stderr ?r = ustr ''Missing URL field: '' @ k)"
  proof (intro impI conjI allI)
    fix qrl k
    assume m: "missing_sections ?S = []" and "find_release_key ?S \<noteq> None"
    then obtain rk where rk: "find_release_key ?S = Some rk" by blast
    note r = main_with_release_key [OF m rk, of lower source]
    assume q: "subscript ?S (ustr ''Quick Reference'') = Inr qrl"
      and f: "find (\<lambda>k. isl (require (parse_labeled_bullets qrl) k))
             [ustr ''Name'', ustr ''Subtitle'', ustr ''Primary Category'',
              ustr ''Secondary Category''] = Some k"
    note e = main_fields_quick_ref_missing [OF m q f, of lower rk]
    show "exit_code ?r = 1" "written ?r = []"
      "stderr ?r = ustr ''Missing Quick Reference field: '' @ k"
      unfolding r e by (simp_all add: failed_def)
  next
    fix qrl ul k
    assume m: "missing_sections ?S = []" and "find_release_key ?S \<noteq> None"
    then obtain rk where rk: "find_release_key ?S = Some rk" by blast
    note r = main_with_release_key [OF m rk, of lower source]
    assume q: "subscript ?S (ustr ''Quick Reference'') = Inr qrl"
      and f: "find (\<lambda>k. isl (require (parse_labeled_bullets qrl) k))
             [ustr ''Name'', ustr ''Subtitle'', ustr ''Primary Category'',
              ustr ''Secondary Category''] = None"
      and u: "subscript ?S (ustr ''URLs'') = Inr ul"
      and g: "find (\<lambda>k. isl (require (parse_labeled_bullets ul) k))
             [ustr ''Marketing URL'', ustr ''Support URL'', ustr ''Privacy Policy URL''] = Some k"
    note e = main_fields_url_missing [OF m q f u g, of lower rk]
    show "exit_code ?r = 1" "written ?r = []"
      "stderr ?r = ustr ''Missing URL field: '' @ k"
      unfolding r e by (simp_all add: failed_def)
  qed
  from 1 2 show ?thesis unfolding Let_def by (rule conjI)
qed

lemmas rx_eval = rmatch.simps cands.simps first_some.simps run_length_def lit_def lits_def
  seg_def Let_def

lemmas sections_eval = parse_sections_def splitlines_def is_linebreak_def parse_lines_def
  parse_step_def setdefault_def append_line_def Let_def str_eval

lemmas bullets_eval = parse_labeled_bullets_def bullet_step_def bullet_field_def rx_bullet_def
  dict_set_def rstrip_chars_def rx_eval str_eval

theorem main_sections_batched_fields_fail_fast_witness:
  "stderr (main (\<lambda>s. s) (ustr ''AppStoreMetadata.md'') (Some (ustr ''## URLs'')))
     = ustr ''Missing sections: Quick Reference, Promotional Text, Full Description, Keywords'' \<and>
   stderr (main (\<lambda>s. s) (ustr ''AppStoreMetadata.md'')
     (Some (ustr ''## Quick Reference\<newline>- **Name** a\<newline>## Promotional Text\<newline>## Full Description\<newline>## Keywords\<newline>## URLs\<newline>## What''
            @ [39] @ ustr ''s New in 1'')))
     = ustr ''Missing Quick Reference field: Subtitle'' \<and>
   stderr (main (\<lambda>s. s) (ustr ''AppStoreMetadata.md'')
     (Some (ustr ''## Quick Reference\<newline>- **Name** a\<newline>- **Subtitle** b\<newline>- **Primary Category** c\<newline>- **Secondary Category** d\<newline>## Promotional Text\<newline>## Full Description\<newline>## Keywords\<newline>## URLs\<newline>- **Marketing URL** m\<newline>## What''
            @ [39] @ ustr ''s New in 1'')))
     = ustr ''Missing URL field: Support URL''"
proof -
  let ?src = "ustr ''AppStoreMetadata.md''"
  let ?d1 = "ustr ''## URLs''"
  let ?d2 = "ustr ''## Quick Reference\<newline>- **Name** a\<newline>## Promotional Text\<newline>## Full Description\<newline>## Keywords\<newline>## URLs\<newline>## What''
            @ [39] @ ustr ''s New in 1''"
  let ?d3 = "ustr ''## Quick Reference\<newline>- **Name** a\<newline>- **Subtitle** b\<newline>- **Primary Category** c\<newline>- **Secondary Category** d\<newline>## Promotional Text\<newline>## Full Description\<newline>## Keywords\<newline>## URLs\<newline>- **Marketing URL** m\<newline>## What''
            @ [39] @ ustr ''s New in 1''"
  have s1: "parse_sections ?d1 = [(ustr ''URLs'', [])]"
    by (simp add: sections_eval)
  have m1: "missing_sections (parse_sections ?d1) =
      [ustr ''Quick Reference'', ustr ''Promotional Text'', ustr ''Full Description'', ustr ''Keywords'']"
    unfolding s1 by (simp add: missing_sections_def required_sections_def ustr_def)
  have n1: "missing_sections (parse_sections ?d1) \<noteq> []" unfolding m1 by simp
  note t1 = main_sections_batched_fields_fail_fast [of ?d1 "\<lambda>s. s" ?src, unfolded Let_def,
      THEN conjunct1, THEN mp, OF n1]
  have j1: "ustr ''Missing sections: '' @ join (ustr '', '') (missing_sections (parse_sections ?d1))
      = ustr ''Missing sections: Quick Reference, Promotional Text, Full Description, Keywords''"
    unfolding m1 by (simp add: ustr_def)
  from t1 have 1: "stderr (main (\<lambda>s. s) ?src (Some ?d1))
     = ustr ''Missing sections: Quick Reference, Promotional Text, Full Description, Keywords''"
    unfolding j1 by (elim conjE)

  have s2: "parse_sections ?d2 =
      [(ustr ''Quick Reference'', [ustr ''- **Name** a'']), (ustr ''Promotional Text'', []),
       (ustr ''Full Description'', []), (ustr ''Keywords'', []), (ustr ''URLs'', []),
       (ustr ''What'' @ [39] @ ustr ''s New in 1'', [])]"
    by (simp add: sections_eval)
  have m2: "missing_sections (parse_sections ?d2) = []"
    unfolding s2 by (simp add: missing_sections_def required_sections_def ustr_def)
  have r2: "find_release_key (parse_sections ?d2) \<noteq> None"
    unfolding s2 by (simp add: find_release_key_def whats_new_def startswith_def ustr_def)
  have q2: "subscript (parse_sections ?d2) (ustr ''Quick Reference'') = Inr [ustr ''- **Name** a'']"
    unfolding s2 by (simp add: subscript_def dict_get_def ustr_def)
  have b2: "parse_labeled_bullets [ustr ''- **Name** a''] = [(ustr ''Name'', ustr ''a'')]"
    by (simp add: bullets_eval)
  have f2: "find (\<lambda>k. isl (require (parse_labeled_bullets [ustr ''- **Name** a'']) k))
             [ustr ''Name'', ustr ''Subtitle'', ustr ''Primary Category'',
              ustr ''Secondary Category''] = Some (ustr ''Subtitle'')"
    unfolding b2 by (simp add: require_def dict_get_def str_eval)
  note t2 = main_sections_batched_fields_fail_fast [of ?d2 "\<lambda>s. s" ?src, unfolded Let_def,
      THEN conjunct2, THEN mp, OF m2, THEN mp, OF r2, THEN conjunct1, rule_format, OF q2 f2]
  from t2 have 2: "stderr (main (\<lambda>s. s) ?src (Some ?d2)) = ustr ''Missing Quick Reference field: Subtitle''"
    by (simp add: ustr_def)

  have s3: "parse_sections ?d3 =
      [(ustr ''Quick Reference'', [ustr ''- **Name** a'', ustr ''- **Subtitle** b'',
          ustr ''- **Primary Category** c'', ustr ''- **Secondary Category** d'']),
       (ustr ''Promotional Text'', []),
       (ustr ''Full Description'', []), (ustr ''Keywords'', []),
       (ustr ''URLs'', [ustr ''- **Marketing URL** m'']),
       (ustr ''What'' @ [39] @ ustr ''s New in 1'', [])]"
    by (simp add: sections_eval)
  have m3: "missing_sections (parse_sections ?d3) = []"
    unfolding s3 by (simp add: missing_sections_def required_sections_def ustr_def)
  have r3: "find_release_key (parse_sections ?d3) \<noteq> None"
    unfolding s3 by (simp add: find_release_key_def whats_new_def startswith_def ustr_def)
  have q3: "subscript (parse_sections ?d3) (ustr ''Quick Reference'') =
      Inr [ustr ''- **Name** a'', ustr ''- **Subtitle** b'',
          ustr ''- **Primary Category** c'', ustr ''- **Secondary Category** d'']"
    unfolding s3 by (simp add: subscript_def dict_get_def ustr_def)
  have u3: "subscript (parse_sections ?d3) (ustr ''URLs'') = Inr [ustr ''- **Marketing URL** m'']"
    unfolding s3 by (simp add: subscript_def dict_get_def ustr_def)
  have b3: "parse_labeled_bullets [ustr ''- **Name** a'', ustr ''- **Subtitle** b'',
          ustr ''- **Primary Category** c'', ustr ''- **Secondary Category** d'']
      = [(ustr ''Name'', ustr ''a''), (ustr ''Subtitle'', ustr ''b''),
         (ustr ''Primary Category'', ustr ''c''), (ustr ''Secondary Category'', ustr ''d'')]"
    by (simp add: bullets_eval)
  have f3: "find (\<lambda>k. isl (require (parse_labeled_bullets [ustr ''- **Name** a'', ustr ''- **Subtitle** b'',
          ustr ''- **Primary Category** c'', ustr ''- **Secondary Category** d'']) k))
             [ustr ''Name'', ustr ''Subtitle'', ustr ''Primary Category'',
              ustr ''Secondary Category''] = None"
    unfolding b3 by (simp add: require_def dict_get_def str_eval)
  have c3: "parse_labeled_bullets [ustr ''- **Marketing URL** m''] = [(ustr ''Marketing URL'', ustr ''m'')]"
    by (simp add: bullets_eval)
  have g3: "find (\<lambda>k. isl (require (parse_labeled_bullets [ustr ''- **Marketing URL** m'']) k))
             [ustr ''Marketing URL'', ustr ''Support URL'', ustr ''Privacy Policy URL'']
             = Some (ustr ''Support URL'')"
    unfolding c3 by (simp add: require_def dict_get_def str_eval)
  note t3 = main_sections_batched_fields_fail_fast [of ?d3 "\<lambda>s. s" ?src, unfolded Let_def,
      THEN conjunct2, THEN mp, OF m3, THEN mp, OF r3, THEN conjunct2, rule_format, OF q3 f3 u3 g3]
  from t3 have 3: "stderr (main (\<lambda>s. s) ?src (Some ?d3)) = ustr ''Missing URL field: Support URL''"
    by (simp add: ustr_def)
  from 1 2 3 show ?thesis by (intro conjI)
qed

subsection \<open>Emission in \<open>main\<close>\<close>

lemma replace_eq_Nil_iff: "new \<noteq> [] \<Longrightarrow> replace old new s = [] \<longleftrightarrow> s = []"
  by (cases s) simp_all

lemma asciiize_eq_Nil_iff: "asciiize s = [] \<longleftrightarrow> s = []"
  by (simp add: asciiize_def ASCII_MAP_def replace_eq_Nil_iff ustr_def)

lemma write_files_char:
  "write_files dir files w =
     (map_option fst (find (\<lambda>(f, c). c = []) files),
      w @ map (\<lambda>(f, c). (dir, f, strip c @ [10])) (takeWhile (\<lambda>(f, c). c \<noteq> []) files))"
  by (induction dir files w rule: write_files.induct) auto

lemma first_word_email_ok:
  assumes "v \<noteq> []" and "v = strip w"
  shows "\<exists>u. extract_email v = Inr u"
  using first_word_ok [OF assms] assms(1)
  by (auto simp: extract_email_def split: option.splits prod.splits)

lemma review_fields_Inl: "review_fields m = Inl e \<Longrightarrow> \<exists>k. e = KeyError k"
  by (auto simp: review_fields_def split: sum.splits dest: require_Inl)

lemma review_fields_Inr:
  "review_fields m = Inr (cn, ce, cp) \<Longrightarrow> ce \<noteq> [] \<and> (\<exists>w. ce = strip w)"
  by (auto simp: review_fields_def split: sum.splits dest: require_Inr)

lemma review_files_ok:
  assumes "review_fields m = Inr contact"
  shows "\<exists>files. review_files lower rs m contact = Inr files"
proof -
  obtain cn ce cp where c: "contact = (cn, ce, cp)" by (cases contact)
  from review_fields_Inr [OF assms [unfolded c]] obtain w where "ce \<noteq> []" "ce = strip w" by blast
  from first_word_email_ok [OF this] obtain u where "extract_email ce = Inr u" ..
  then show ?thesis by (simp add: review_files_def c Let_def split: prod.splits)
qed

lemma main_review_result:
  "\<exists>w' msg. main_review lower rs w = succeeded (w @ w') \<or>
     main_review lower rs w = failed (ustr ''Missing Review Information field: '' @ msg) w \<or>
     main_review lower rs w = failed (ustr ''Missing content for review information '' @ msg) (w @ w')"
proof (cases "parse_labeled_bullets rs = []")
  case True
  then have "main_review lower rs w = succeeded (w @ [])" by (simp add: main_review_def)
  then show ?thesis by blast
next
  case False
  show ?thesis
  proof (cases "review_fields (parse_labeled_bullets rs)")
    case (Inl e)
    from review_fields_Inl [OF Inl] obtain k where "e = KeyError k" ..
    with Inl False have "main_review lower rs w =
        failed (ustr ''Missing Review Information field: '' @ k) w"
      by (simp add: main_review_def on_error_def)
    then show ?thesis by blast
  next
    case (Inr contact)
    from review_files_ok [OF Inr] obtain files
      where f: "review_files lower rs (parse_labeled_bullets rs) contact = Inr files" ..
    let ?w' = "map (\<lambda>(f, c). (REVIEW_INFO_DIR, f, strip c @ [10])) (takeWhile (\<lambda>(f, c). c \<noteq> []) files)"
    show ?thesis
    proof (cases "find (\<lambda>(f, c). c = []) files")
      case None
      with Inr False f have "main_review lower rs w = succeeded (w @ ?w')"
        by (simp add: main_review_def write_files_char)
      then show ?thesis by blast
    next
      case (Some fc)
      with Inr False f have "main_review lower rs w =
          failed (ustr ''Missing content for review information '' @ fst fc) (w @ ?w')"
        by (simp add: main_review_def write_files_char)
      then show ?thesis by blast
    qed
  qed
qed

lemma find_takeWhile:
  "find P xs = Some x \<Longrightarrow>
     length (takeWhile (\<lambda>y. \<not> P y) xs) < length xs \<and> xs ! length (takeWhile (\<lambda>y. \<not> P y) xs) = x"
  by (induction xs) (auto split: if_splits)

lemma takeWhile_nonempty_content:
  "takeWhile (\<lambda>(f, c). c \<noteq> []) files = takeWhile (\<lambda>y. \<not> (case y of (f, c) \<Rightarrow> c = [])) files"
  by (rule arg_cong [where f = "\<lambda>P. takeWhile P files"]) auto

lemma quick_ref_name_nonempty:
  "quick_ref_fields m = Inr (name, rest) \<Longrightarrow> name \<noteq> []"
  by (auto simp: quick_ref_fields_def split: sum.splits dest: require_Inr)

lemma release_key_subscript:
  assumes "find_release_key S = Some rk"
  shows "\<exists>ls. subscript S rk = Inr ls"
proof -
  from assms have "rk \<in> set (map fst S)"
    by (auto simp: find_release_key_def find_Some_iff)
  then obtain ls where "map_of S rk = Some ls"
    by (cases "map_of S rk") (auto simp: map_of_eq_None_iff)
  then show ?thesis by (simp add: subscript_def dict_get_def)
qed

lemma primary_files_ok:
  assumes m: "missing_sections S = []" and rk: "find_release_key S = Some rk"
    and q: "quick_ref_fields qm = Inr qr"
  shows "\<exists>files. primary_files S rk qr us = Inr files \<and>
     map fst files =
       [ustr ''name.txt'', ustr ''subtitle.txt'', ustr ''promotional_text.txt'',
        ustr ''description.txt'', ustr ''keywords.txt'', ustr ''release_notes.txt'',
        ustr ''marketing_url.txt'', ustr ''support_url.txt'', ustr ''privacy_url.txt'',
        ustr ''primary_category.txt'', ustr ''secondary_category.txt''] \<and>
     snd (hd files) \<noteq> []"
proof -
  obtain name subtitle pc sc where qr: "qr = (name, subtitle, pc, sc)" by (cases qr)
  obtain mu su pu where us: "us = (mu, su, pu)" by (cases us)
  from q qr have n: "name \<noteq> []" by (auto dest: quick_ref_name_nonempty)
  have "ustr ''Promotional Text'' \<in> set required_sections"
    "ustr ''Full Description'' \<in> set required_sections"
    "ustr ''Keywords'' \<in> set required_sections"
    by (simp_all add: required_sections_def)
  from this [THEN missing_sections_Nil [OF m]] release_key_subscript [OF rk]
  obtain a b c d where "subscript S (ustr ''Promotional Text'') = Inr a"
    "subscript S (ustr ''Full Description'') = Inr b"
    "subscript S (ustr ''Keywords'') = Inr c" "subscript S rk = Inr d" by blast
  with n show ?thesis by (simp add: primary_files_def qr us asciiize_eq_Nil_iff)
qed

lemma validation_message_prefixes:
  "\<not> startswith (ustr ''Missing source file: '' @ x) (ustr ''Missing content for '')"
  "\<not> startswith (ustr ''Missing source file: '' @ x) (ustr ''Missing Review Information field: '')"
  "\<not> startswith (ustr ''Missing sections: '' @ x) (ustr ''Missing content for '')"
  "\<not> startswith (ustr ''Missing sections: '' @ x) (ustr ''Missing Review Information field: '')"
  "\<not> startswith missing_release_notes (ustr ''Missing content for '')"
  "\<not> startswith missing_release_notes (ustr ''Missing Review Information field: '')"
  "\<not> startswith (ustr ''Missing Quick Reference field: '' @ x) (ustr ''Missing content for '')"
  "\<not> startswith (ustr ''Missing Quick Reference field: '' @ x) (ustr ''Missing Review Information field: '')"
  "\<not> startswith (ustr ''Missing URL field: '' @ x) (ustr ''Missing content for '')"
  "\<not> startswith (ustr ''Missing URL field: '' @ x) (ustr ''Missing Review Information field: '')"
  by (simp_all add: startswith_def ustr_def missing_release_notes_def whats_new_def)

lemma find_empty_content:
  "find (\<lambda>(f, c). c = []) files = Some fc \<Longrightarrow>
     length (takeWhile (\<lambda>(f, c). c \<noteq> []) files) < length files \<and>
     files ! length (takeWhile (\<lambda>(f, c). c \<noteq> []) files) = fc"
  by (induction files) (auto split: if_splits)

lemma main_emit_cases:
  assumes m: "missing_sections S = []" and rk: "find_release_key S = Some rk"
    and q: "quick_ref_fields qm = Inr qr"
  shows "(\<exists>n w. 0 < n \<and> n < 11 \<and>
           map (fst \<circ> snd) w = take n
             [ustr ''name.txt'', ustr ''subtitle.txt'', ustr ''promotional_text.txt'',
              ustr ''description.txt'', ustr ''keywords.txt'', ustr ''release_notes.txt'',
              ustr ''marketing_url.txt'', ustr ''support_url.txt'', ustr ''privacy_url.txt'',
              ustr ''primary_category.txt'', ustr ''secondary_category.txt''] \<and>
           main_emit lower S rk qr us = failed (ustr ''Missing content for '' @
             [ustr ''name.txt'', ustr ''subtitle.txt'', ustr ''promotional_text.txt'',
              ustr ''description.txt'', ustr ''keywords.txt'', ustr ''release_notes.txt'',
              ustr ''marketing_url.txt'', ustr ''support_url.txt'', ustr ''privacy_url.txt'',
              ustr ''primary_category.txt'', ustr ''secondary_category.txt''] ! n) w) \<or>
         (\<exists>w rs. length w = 11 \<and> main_emit lower S rk qr us = main_review lower rs w)"
proof -
  let ?names = "[ustr ''name.txt'', ustr ''subtitle.txt'', ustr ''promotional_text.txt'',
              ustr ''description.txt'', ustr ''keywords.txt'', ustr ''release_notes.txt'',
              ustr ''marketing_url.txt'', ustr ''support_url.txt'', ustr ''privacy_url.txt'',
              ustr ''primary_category.txt'', ustr ''secondary_category.txt'']"
  from primary_files_ok [OF m rk q, of us] obtain files
    where pf: "primary_files S rk qr us = Inr files \<and> map fst files = ?names \<and>
      snd (hd files) \<noteq> []" ..
  from pf have f: "primary_files S rk qr us = Inr files" by (rule conjunct1)
  from pf have names: "map fst files = ?names" by (rule conjunct2 [THEN conjunct1])
  from pf have h: "snd (hd files) \<noteq> []" by (rule conjunct2 [THEN conjunct2])
  from arg_cong [OF names, of length] have len: "length files = 11" by simp
  let ?tw = "takeWhile (\<lambda>(f, c). c \<noteq> []) files"
  let ?w = "map (\<lambda>(f, c). (OUTPUT_DIR, f, strip c @ [10])) ?tw"
  have fw: "map (fst \<circ> snd) ?w = take (length ?tw) ?names"
  proof -
    have "map (fst \<circ> snd) ?w = map fst ?tw" by (simp add: comp_def case_prod_beta)
    also have "\<dots> = map fst (take (length ?tw) files)" by (simp add: takeWhile_eq_take [symmetric])
    also have "\<dots> = take (length ?tw) ?names" by (simp only: take_map [symmetric] names)
    finally show ?thesis .
  qed
  show ?thesis
  proof (cases "find (\<lambda>(f, c). c = []) files")
    case None
    then have "\<forall>x\<in>set files. (\<lambda>(f, c). c \<noteq> []) x" by (auto simp: find_None_iff)
    then have tw: "?tw = files" by (simp add: takeWhile_eq_all_conv)
    have "length ?w = length ?tw" by (rule length_map)
    with len have "length ?w = 11" by (simp only: tw)
    moreover from f None have "main_emit lower S rk qr us = main_review lower
        (case dict_get S (ustr ''Review Information'') of None \<Rightarrow> [] | Some ls \<Rightarrow> ls) ?w"
      by (simp add: main_emit_def write_files_char)
    ultimately have "\<exists>w rs. length w = 11 \<and> main_emit lower S rk qr us = main_review lower rs w"
      by (intro exI [of _ ?w] exI [of _ "case dict_get S (ustr ''Review Information'') of None \<Rightarrow> [] | Some ls \<Rightarrow> ls"] conjI)
    then show ?thesis by (rule disjI2)
  next
    case (Some fc)
    from find_empty_content [OF Some]
    have lt: "length ?tw < length files" and nth: "files ! length ?tw = fc"
      by blast+
    from len obtain x xs where xs: "files = x # xs" by (cases files) auto
    with h have 1: "0 < length ?tw" by (cases x) simp
    from lt len have 2: "length ?tw < 11" by simp
    from lt have "map fst files ! length ?tw = fst (files ! length ?tw)" by (rule nth_map)
    with nth have 3: "fst fc = ?names ! length ?tw" by (simp only: names)
    from f Some have "main_emit lower S rk qr us =
        failed (ustr ''Missing content for '' @ fst fc) ?w"
      by (simp add: main_emit_def write_files_char)
    then have 4: "main_emit lower S rk qr us =
        failed (ustr ''Missing content for '' @ ?names ! length ?tw) ?w"
      by (simp only: 3)
    from 1 2 fw 4 have "\<exists>n w. 0 < n \<and> n < 11 \<and> map (fst \<circ> snd) w = take n ?names \<and>
           main_emit lower S rk qr us = failed (ustr ''Missing content for '' @ ?names ! n) w"
      by (intro exI [of _ "length ?tw"] exI [of _ ?w] conjI)
    then show ?thesis by (rule disjI1)
  qed
qed

end
